theory Spec2Isabelle
  imports Main "HOL-Library.Word"
begin

unbundle bit_operations_syntax

section \<open>The Micronucleus bootloader driver of avrdude\<close>

text \<open>
  A shallow embedding of the Micronucleus backend (the second document of
  \<^verbatim>\<open>src/src/urbootlist.h\<close>, avrdude's \<^verbatim>\<open>micronucleus.c\<close>).
  Every C function keeps its name. A function that mutates \<^verbatim>\<open>struct pdata\<close> takes the
  record and returns the updated one; a function that talks to the USB stack takes and
  returns the \<open>world\<close>, which holds the chronological trace of everything the driver did
  to its environment and the environment's answers. Undefined behaviour of the C code (a
  division by zero, an access outside a buffer, a NULL handle given to libusb) is a value
  of type \<open>fault\<close>, returned as \<open>Inl\<close>; the C return code is the \<open>int\<close> inside \<open>Inr\<close>.

  Operands of type \<^verbatim>\<open>uint8_t\<close> and \<^verbatim>\<open>uint16_t\<close> are promoted to the 32-bit \<^verbatim>\<open>int\<close> in C
  arithmetic. The model computes such expressions on \<open>int\<close> (no expression below leaves
  the range of a 32-bit \<^verbatim>\<open>int\<close>: the largest is a product of a 16-bit and an 8-bit value)
  and truncates with \<open>word_of_int\<close> where the C code assigns to a narrower field.
\<close>

subsection \<open>Data\<close>

type_synonym u8 = "8 word"
type_synonym u16 = "16 word"
type_synonym u32 = "32 word"

datatype fault = NullHandle | DivideByZero | OutOfBounds

text \<open>libusb's \<^verbatim>\<open>struct usb_device\<close> and \<^verbatim>\<open>struct usb_bus\<close>: the fields the driver reads.\<close>

record usb_device =
  filename :: string
  idVendor :: u16
  idProduct :: u16
  bcdDevice :: u16

record usb_bus =
  dirname :: string
  devices :: "usb_device list"

datatype usb_dir = USB_ENDPOINT_IN | USB_ENDPOINT_OUT

text \<open>
  The arguments of one \<^verbatim>\<open>usb_control_msg\<close> call (the request type is always
  vendor/device, the timeout always \<^verbatim>\<open>MICRONUCLEUS_DEFAULT_TIMEOUT\<close>).
\<close>

record usb_request =
  rq_dir :: usb_dir
  rq_cmd :: int
  rq_wvalue :: int
  rq_windex :: int
  rq_bytes :: "u8 list"
  rq_size :: nat

text \<open>
  What the driver does to its environment, in order: a control transfer on an open device,
  a \<^verbatim>\<open>usleep\<close> (microseconds, as \<^verbatim>\<open>delay_ms\<close> computes them), \<^verbatim>\<open>usb_open\<close> and \<^verbatim>\<open>usb_close\<close>,
  and each entry into \<^verbatim>\<open>micronucleus_write_page\<close> with its address, buffer and size (the
  call the source logs with \<^verbatim>\<open>pmsg_debug\<close>).
\<close>

datatype event =
    Ctrl usb_device usb_request
  | Usleep u32
  | Open usb_device bool
  | Close usb_device
  | WritePage u32 "u8 list" u32

text \<open>
  The environment. Its answers are arbitrary functions of the history: the result and the
  bytes of a control transfer, whether \<^verbatim>\<open>usb_open\<close> succeeds, what the bus enumeration
  finds and what \<^verbatim>\<open>time(NULL)\<close> returns. \<open>usb_access_error\<close> is \<^verbatim>\<open>cx->usb_access_error\<close>.
\<close>

record world =
  trace :: "event list"
  usb_reply :: "event list \<Rightarrow> usb_request \<Rightarrow> int \<times> u8 list"
  usb_open_ok :: "event list \<Rightarrow> usb_device \<Rightarrow> bool"
  usb_busses :: "event list \<Rightarrow> usb_bus list"
  clock :: "event list \<Rightarrow> int"
  usb_access_error :: bool

text \<open>\<^verbatim>\<open>struct pdata\<close>, field by field.\<close>

record pdata =
  usb_handle :: "usb_device option"
  wait_until_device_present :: bool
  wait_timout :: int
  major_version :: u8
  minor_version :: u8
  flash_size :: u16
  page_size :: u8
  write_sleep :: u8
  signature1 :: u8
  signature2 :: u8
  pages :: u16
  bootloader_start :: u16
  erase_sleep :: u16
  user_reset_vector :: u16
  write_last_page :: bool
  start_program :: bool

definition MICRONUCLEUS_VID :: int where "MICRONUCLEUS_VID = 0x16D0"
definition MICRONUCLEUS_PID :: int where "MICRONUCLEUS_PID = 0x0753"
definition MICRONUCLEUS_CONNECT_WAIT :: u32 where "MICRONUCLEUS_CONNECT_WAIT = 100"
definition MICRONUCLEUS_CMD_INFO :: int where "MICRONUCLEUS_CMD_INFO = 0"
definition MICRONUCLEUS_CMD_TRANSFER :: int where "MICRONUCLEUS_CMD_TRANSFER = 1"
definition MICRONUCLEUS_CMD_ERASE :: int where "MICRONUCLEUS_CMD_ERASE = 2"
definition MICRONUCLEUS_CMD_PROGRAM :: int where "MICRONUCLEUS_CMD_PROGRAM = 3"
definition MICRONUCLEUS_CMD_START :: int where "MICRONUCLEUS_CMD_START = 4"
definition MICRONUCLEUS_MAX_MAJOR_VERSION :: u8 where "MICRONUCLEUS_MAX_MAJOR_VERSION = 2"

subsection \<open>The USB primitives\<close>

text \<open>
  \<^verbatim>\<open>usb_control_msg\<close>: the environment chooses the result \<open>r\<close> and, for an IN transfer,
  the bytes; the caller's buffer (zero-initialised in every IN call of the driver) receives
  the first \<open>r\<close> of them and always keeps its size. A NULL handle is a fault.
\<close>

definition usb_control_msg ::
  "usb_device option \<Rightarrow> usb_request \<Rightarrow> world \<Rightarrow> fault + (int \<times> u8 list \<times> world)" where
  "usb_control_msg h rq w =
     (case h of
        None \<Rightarrow> Inl NullHandle
      | Some d \<Rightarrow>
          (case usb_reply w (trace w) rq of
             (r, bytes) \<Rightarrow>
               Inr (r,
                    (if rq_dir rq = USB_ENDPOINT_IN
                     then take (rq_size rq) (take (nat r) bytes @ replicate (rq_size rq) 0)
                     else rq_bytes rq),
                    w\<lparr>trace := trace w @ [Ctrl d rq]\<rparr>)))"

definition usb_open :: "usb_device \<Rightarrow> world \<Rightarrow> usb_device option \<times> world" where
  "usb_open d w =
     (if usb_open_ok w (trace w) d
      then (Some d, w\<lparr>trace := trace w @ [Open d True]\<rparr>)
      else (None, w\<lparr>trace := trace w @ [Open d False]\<rparr>))"

definition usb_close :: "usb_device option \<Rightarrow> world \<Rightarrow> fault + world" where
  "usb_close h w =
     (case h of
        None \<Rightarrow> Inl NullHandle
      | Some d \<Rightarrow> Inr (w\<lparr>trace := trace w @ [Close d]\<rparr>))"

definition delay_ms :: "u32 \<Rightarrow> world \<Rightarrow> world" where
  "delay_ms duration w = w\<lparr>trace := trace w @ [Usleep (duration * 1000)]\<rparr>"

definition info_request :: "nat \<Rightarrow> usb_request" where
  "info_request n =
     \<lparr>rq_dir = USB_ENDPOINT_IN, rq_cmd = MICRONUCLEUS_CMD_INFO, rq_wvalue = 0,
      rq_windex = 0, rq_bytes = [], rq_size = n\<rparr>"

definition micronucleus_check_connection :: "pdata \<Rightarrow> world \<Rightarrow> fault + (int \<times> world)" where
  "micronucleus_check_connection pdata w =
     (if major_version pdata \<ge> 2 then
        (case usb_control_msg (usb_handle pdata) (info_request 6) w of
           Inl f \<Rightarrow> Inl f
         | Inr (result, buffer, w1) \<Rightarrow>
             Inr (if result = 6 then 0 else -1,
                  if result < 0 then w1\<lparr>usb_access_error := True\<rparr> else w1))
      else
        (case usb_control_msg (usb_handle pdata) (info_request 4) w of
           Inl f \<Rightarrow> Inl f
         | Inr (result, buffer, w1) \<Rightarrow>
             Inr (if result = 4 then 0 else -1,
                  if result < 0 then w1\<lparr>usb_access_error := True\<rparr> else w1)))"

subsection \<open>The info resolver\<close>

text \<open>
  The block of \<^verbatim>\<open>micronucleus_get_bootloader_info_v1\<close> that guesses the part from the
  page size and the flash size.
\<close>

definition guess_signature :: "pdata \<Rightarrow> pdata" where
  "guess_signature pdata =
     (if page_size pdata = 128 then pdata\<lparr>signature1 := 0x94, signature2 := 0x87\<rparr>
      else if page_size pdata = 64 then
        (if flash_size pdata > 4096 then pdata\<lparr>signature1 := 0x93, signature2 := 0x0B\<rparr>
         else pdata\<lparr>signature1 := 0x92, signature2 := 0x06\<rparr>)
      else if page_size pdata = 16 then pdata\<lparr>signature1 := 0x93, signature2 := 0x15\<rparr>
      else pdata\<lparr>signature1 := 0, signature2 := 0\<rparr>)"

text \<open>
  The three assignments to \<^verbatim>\<open>pages\<close>, \<^verbatim>\<open>bootloader_start\<close> and \<^verbatim>\<open>erase_sleep\<close>, which both
  resolvers make in the same words. The division traps on a page size of 0; the callers
  test that first.
\<close>

definition calculated_info :: "pdata \<Rightarrow> pdata" where
  "calculated_info pdata =
     (let p1 = pdata\<lparr>pages := word_of_int
                 ((uint (flash_size pdata) + uint (page_size pdata) - 1) div uint (page_size pdata))\<rparr>;
          p2 = p1\<lparr>bootloader_start := word_of_int (uint (pages p1) * uint (page_size p1))\<rparr>
      in p2\<lparr>erase_sleep := word_of_int (uint (write_sleep p2) * uint (pages p2))\<rparr>)"

definition micronucleus_get_bootloader_info_v1 ::
  "pdata \<Rightarrow> world \<Rightarrow> fault + (int \<times> pdata \<times> world)" where
  "micronucleus_get_bootloader_info_v1 pdata w =
     (case usb_control_msg (usb_handle pdata) (info_request 4) w of
        Inl f \<Rightarrow> Inl f
      | Inr (result, buffer, w1) \<Rightarrow>
          if result < 0 then Inr (result, pdata, w1)
          else if nat result < 4 then Inr (-1, pdata, w1)
          else
            let p1 = guess_signature (pdata\<lparr>
                  flash_size := word_of_int (push_bit 8 (uint (buffer ! 0)) OR uint (buffer ! 1)),
                  page_size := buffer ! 2,
                  write_sleep := (buffer ! 3) AND 127\<rparr>)
            in if page_size p1 = 0 then Inl DivideByZero
               else Inr (0, calculated_info p1, w1))"

definition micronucleus_get_bootloader_info_v2 ::
  "pdata \<Rightarrow> world \<Rightarrow> fault + (int \<times> pdata \<times> world)" where
  "micronucleus_get_bootloader_info_v2 pdata w =
     (case usb_control_msg (usb_handle pdata) (info_request 6) w of
        Inl f \<Rightarrow> Inl f
      | Inr (result, buffer, w1) \<Rightarrow>
          if result < 0 then Inr (result, pdata, w1)
          else if nat result < 6 then Inr (-1, pdata, w1)
          else
            let p1 = pdata\<lparr>
                  flash_size := word_of_int (push_bit 8 (uint (buffer ! 0)) + uint (buffer ! 1)),
                  page_size := buffer ! 2,
                  write_sleep := word_of_int (uint ((buffer ! 3) AND 127) + 2),
                  signature1 := buffer ! 4,
                  signature2 := buffer ! 5\<rparr>
            in if page_size p1 = 0 then Inl DivideByZero
               else
                 let p2 = calculated_info p1
                 in Inr (0,
                      (if (buffer ! 3) AND 128 \<noteq> 0
                       then p2\<lparr>erase_sleep := erase_sleep p2 div 4\<rparr> else p2),
                      w1))"

definition micronucleus_get_bootloader_info ::
  "pdata \<Rightarrow> world \<Rightarrow> fault + (int \<times> pdata \<times> world)" where
  "micronucleus_get_bootloader_info pdata w =
     (if major_version pdata \<ge> 2 then micronucleus_get_bootloader_info_v2 pdata w
      else micronucleus_get_bootloader_info_v1 pdata w)"

subsection \<open>Erase and reconnect\<close>

text \<open>The \<^verbatim>\<open>for\<close> loop of \<^verbatim>\<open>micronucleus_reconnect\<close>, from its counter \<open>i\<close> on.\<close>

function reconnect_loop :: "nat \<Rightarrow> usb_device \<Rightarrow> pdata \<Rightarrow> world \<Rightarrow> int \<times> pdata \<times> world" where
  "reconnect_loop i device pdata w =
     (if i < 25 then
        (case usb_open device w of
           (h, w1) \<Rightarrow>
             if h \<noteq> None then (0, pdata\<lparr>usb_handle := h\<rparr>, w1)
             else reconnect_loop (i + 1) device (pdata\<lparr>usb_handle := h\<rparr>)
                    (delay_ms MICRONUCLEUS_CONNECT_WAIT w1))
      else (-1, pdata, w))"
  by pat_completeness auto
termination
  by (relation "measure (\<lambda>(i, device, pdata, w). 25 - i)") auto

declare reconnect_loop.simps [simp del]

definition micronucleus_reconnect :: "pdata \<Rightarrow> world \<Rightarrow> fault + (int \<times> pdata \<times> world)" where
  "micronucleus_reconnect pdata w =
     (case usb_handle pdata of
        None \<Rightarrow> Inl NullHandle
      | Some device \<Rightarrow>
          (case usb_close (usb_handle pdata) w of
             Inl f \<Rightarrow> Inl f
           | Inr w1 \<Rightarrow> Inr (reconnect_loop 0 device (pdata\<lparr>usb_handle := None\<rparr>) w1)))"

definition erase_request :: usb_request where
  "erase_request =
     \<lparr>rq_dir = USB_ENDPOINT_OUT, rq_cmd = MICRONUCLEUS_CMD_ERASE, rq_wvalue = 0,
      rq_windex = 0, rq_bytes = [], rq_size = 0\<rparr>"

text \<open>
  \<^verbatim>\<open>micronucleus_erase_device\<close>. The values of \<^verbatim>\<open>EIO\<close> and \<^verbatim>\<open>EPIPE\<close> come from the
  platform's \<^verbatim>\<open>errno.h\<close>; they are the parameters \<open>eio\<close> and \<open>epipe\<close>.
\<close>

definition micronucleus_erase_device ::
  "int \<Rightarrow> int \<Rightarrow> pdata \<Rightarrow> world \<Rightarrow> fault + (int \<times> pdata \<times> world)" where
  "micronucleus_erase_device eio epipe pdata w =
     (case usb_control_msg (usb_handle pdata) erase_request w of
        Inl f \<Rightarrow> Inl f
      | Inr (result, buffer, w1) \<Rightarrow>
          if result < 0 \<and> result \<noteq> - eio \<and> result \<noteq> - epipe then Inr (result, pdata, w1)
          else
            (case micronucleus_check_connection pdata
                    (delay_ms (ucast (erase_sleep pdata)) w1) of
               Inl f \<Rightarrow> Inl f
             | Inr (result2, w2) \<Rightarrow>
                 if result2 < 0 then
                   (case micronucleus_reconnect pdata w2 of
                      Inl f \<Rightarrow> Inl f
                    | Inr (result3, pdata3, w3) \<Rightarrow>
                        if result3 < 0 then Inr (result3, pdata3, w3)
                        else Inr (0, pdata3, w3))
                 else Inr (0, pdata, w2)))"

definition micronucleus_chip_erase ::
  "int \<Rightarrow> int \<Rightarrow> pdata \<Rightarrow> world \<Rightarrow> fault + (int \<times> pdata \<times> world)" where
  "micronucleus_chip_erase eio epipe pdata w = micronucleus_erase_device eio epipe pdata w"

subsection \<open>The firmware patch engine\<close>

text \<open>A program word from its low and its high byte: \<^verbatim>\<open>(hi << 8) | lo\<close>.\<close>

definition word_of_bytes :: "u8 \<Rightarrow> u8 \<Rightarrow> u16" where
  "word_of_bytes lo hi = word_of_int (push_bit 8 (uint hi) OR uint lo)"

text \<open>
  The instruction-decode rule of \<^verbatim>\<open>micronucleus_patch_reset_vector\<close>: the target of the
  branch held in the first two program words, \<open>None\<close> where the source reports that the
  reset vector holds no branch.
\<close>

definition reset_vector_of :: "u16 \<Rightarrow> u16 \<Rightarrow> u16 option" where
  "reset_vector_of word0 word1 =
     (if word0 = 0x940C then Some word1
      else if word0 AND 0xF000 = 0xC000 then Some ((word0 AND 0x0FFF) + 1)
      else None)"

definition micronucleus_patch_reset_vector ::
  "pdata \<Rightarrow> u8 list \<Rightarrow> fault + (int \<times> pdata \<times> u8 list)" where
  "micronucleus_patch_reset_vector pdata buffer =
     (if length buffer < 4 then Inl OutOfBounds
      else
        (case reset_vector_of (word_of_bytes (buffer ! 0) (buffer ! 1))
                (word_of_bytes (buffer ! 2) (buffer ! 3)) of
           None \<Rightarrow> Inr (-1, pdata, buffer)
         | Some v \<Rightarrow>
             Inr (0, pdata\<lparr>user_reset_vector := v\<rparr>,
               (if bootloader_start pdata > 0x2000 then
                  buffer[0 := ucast (0x940C :: u16),
                         1 := ucast (drop_bit 8 (0x940C :: u16)),
                         2 := ucast (bootloader_start pdata),
                         3 := ucast (drop_bit 8 (bootloader_start pdata))]
                else
                  let data = (word_of_int
                        (0xC000 OR ((uint (bootloader_start pdata) div 2 - 1) AND 0x0FFF)) :: u16)
                  in buffer[0 := ucast data, 1 := ucast (drop_bit 8 data)]))))"

definition micronucleus_patch_user_vector :: "pdata \<Rightarrow> u8 list \<Rightarrow> fault + u8 list" where
  "micronucleus_patch_user_vector pdata buffer =
     (let user_reset_addr = (word_of_int (uint (bootloader_start pdata) - 4) :: u16);
          address = (word_of_int (uint (bootloader_start pdata) - uint (page_size pdata)) :: u16);
          i = uint user_reset_addr - uint address
      in if user_reset_addr > 0x2000 then
           (if 0 \<le> i \<and> i + 3 < int (length buffer) then
              Inr (buffer[nat i := ucast (0x940C :: u16),
                          nat (i + 1) := ucast (drop_bit 8 (0x940C :: u16)),
                          nat (i + 2) := ucast (user_reset_vector pdata),
                          nat (i + 3) := ucast (drop_bit 8 (user_reset_vector pdata))])
            else Inl OutOfBounds)
         else
           (let data = (word_of_int
                  (0xC000 OR ((uint (user_reset_vector pdata) - uint user_reset_addr div 2 - 1)
                               AND 0x0FFF)) :: u16)
            in if 0 \<le> i \<and> i + 1 < int (length buffer) then
                 Inr (buffer[nat i := ucast data, nat (i + 1) := ucast (drop_bit 8 data)])
               else Inl OutOfBounds))"

subsection \<open>Writing one page\<close>

definition micronucleus_write_page_v1 ::
  "pdata \<Rightarrow> u32 \<Rightarrow> u8 list \<Rightarrow> u32 \<Rightarrow> world \<Rightarrow> fault + (int \<times> world)" where
  "micronucleus_write_page_v1 pdata address buffer sz w =
     (if unat sz > length buffer then Inl OutOfBounds
      else
        (case usb_control_msg (usb_handle pdata)
                \<lparr>rq_dir = USB_ENDPOINT_OUT, rq_cmd = MICRONUCLEUS_CMD_TRANSFER,
                 rq_wvalue = sint sz, rq_windex = sint address,
                 rq_bytes = take (unat sz) buffer, rq_size = unat sz\<rparr> w of
           Inl f \<Rightarrow> Inl f
         | Inr (result, b, w1) \<Rightarrow> if result < 0 then Inr (result, w1) else Inr (0, w1)))"

text \<open>
  The \<^verbatim>\<open>for\<close> loop of \<^verbatim>\<open>micronucleus_write_page_v2\<close>, from its counter \<open>i\<close> on (the
  source's \<^verbatim>\<open>size\<close> is \<open>sz\<close> here and below: \<open>size\<close> is a constant of HOL). The counter
  is a \<^verbatim>\<open>uint32_t\<close> in the source; it cannot wrap before the loop ends or reads outside the
  buffer, so the model counts in \<open>nat\<close>.
\<close>

function write_page_v2_loop ::
  "nat \<Rightarrow> pdata \<Rightarrow> u8 list \<Rightarrow> u32 \<Rightarrow> world \<Rightarrow> fault + (int \<times> world)" where
  "write_page_v2_loop i pdata buffer sz w =
     (if i < unat sz then
        (if i + 3 < length buffer then
           (case usb_control_msg (usb_handle pdata)
                   \<lparr>rq_dir = USB_ENDPOINT_OUT, rq_cmd = MICRONUCLEUS_CMD_PROGRAM,
                    rq_wvalue = push_bit 8 (uint (buffer ! (i + 1))) OR uint (buffer ! i),
                    rq_windex = push_bit 8 (uint (buffer ! (i + 3))) OR uint (buffer ! (i + 2)),
                    rq_bytes = [], rq_size = 0\<rparr> w of
              Inl f \<Rightarrow> Inl f
            | Inr (result, b, w1) \<Rightarrow>
                if result < 0 then Inr (result, w1)
                else write_page_v2_loop (i + 4) pdata buffer sz w1)
         else Inl OutOfBounds)
      else Inr (0, w))"
  by pat_completeness auto
termination
  by (relation "measure (\<lambda>(i, pdata, buffer, sz, w). unat sz - i)") auto

declare write_page_v2_loop.simps [simp del]

definition micronucleus_write_page_v2 ::
  "pdata \<Rightarrow> u32 \<Rightarrow> u8 list \<Rightarrow> u32 \<Rightarrow> world \<Rightarrow> fault + (int \<times> world)" where
  "micronucleus_write_page_v2 pdata address buffer sz w =
     (case usb_control_msg (usb_handle pdata)
             \<lparr>rq_dir = USB_ENDPOINT_OUT, rq_cmd = MICRONUCLEUS_CMD_TRANSFER,
              rq_wvalue = sint sz, rq_windex = sint address,
              rq_bytes = [], rq_size = 0\<rparr> w of
        Inl f \<Rightarrow> Inl f
      | Inr (result, b, w1) \<Rightarrow>
          if result < 0 then Inr (result, w1)
          else write_page_v2_loop 0 pdata buffer sz w1)"

text \<open>
  \<^verbatim>\<open>micronucleus_write_page\<close>. The first part (the patches and the session flags) gives
  the return code of a failed reset-vector patch, or the updated session and buffer.
\<close>

definition write_page_prepare ::
  "pdata \<Rightarrow> u32 \<Rightarrow> u8 list \<Rightarrow> fault + (int \<times> pdata \<times> u8 list)" where
  "write_page_prepare pdata address buffer =
     (if address = 0 then
        (if major_version pdata \<ge> 2 then
           (case micronucleus_patch_reset_vector pdata buffer of
              Inl f \<Rightarrow> Inl f
            | Inr (result, pdata1, buffer1) \<Rightarrow>
                if result < 0 then Inr (result, pdata1, buffer1)
                else Inr (0, pdata1\<lparr>write_last_page := True, start_program := True\<rparr>, buffer1))
         else Inr (0, pdata\<lparr>write_last_page := True, start_program := True\<rparr>, buffer))
      else if address \<ge> word_of_int (uint (bootloader_start pdata) - uint (page_size pdata)) then
        (if major_version pdata \<ge> 2 then
           (case micronucleus_patch_user_vector pdata buffer of
              Inl f \<Rightarrow> Inl f
            | Inr buffer1 \<Rightarrow> Inr (0, pdata\<lparr>write_last_page := False\<rparr>, buffer1))
         else Inr (0, pdata\<lparr>write_last_page := False\<rparr>, buffer))
      else Inr (0, pdata, buffer))"

definition micronucleus_write_page ::
  "pdata \<Rightarrow> u32 \<Rightarrow> u8 list \<Rightarrow> u32 \<Rightarrow> world \<Rightarrow> fault + (int \<times> pdata \<times> world)" where
  "micronucleus_write_page pdata address buffer sz w =
     (let w0 = w\<lparr>trace := trace w @ [WritePage address buffer sz]\<rparr> in
      case write_page_prepare pdata address buffer of
        Inl f \<Rightarrow> Inl f
      | Inr (result0, pdata1, buffer1) \<Rightarrow>
          if result0 < 0 then Inr (result0, pdata1, w0)
          else
            (case (if major_version pdata1 \<ge> 2
                   then micronucleus_write_page_v2 pdata1 address buffer1 sz w0
                   else micronucleus_write_page_v1 pdata1 address buffer1 sz w0) of
               Inl f \<Rightarrow> Inl f
             | Inr (result, w1) \<Rightarrow>
                 if result < 0 then Inr (result, pdata1, w1)
                 else Inr (0, pdata1, delay_ms (ucast (write_sleep pdata1)) w1)))"

definition start_request :: usb_request where
  "start_request =
     \<lparr>rq_dir = USB_ENDPOINT_OUT, rq_cmd = MICRONUCLEUS_CMD_START, rq_wvalue = 0,
      rq_windex = 0, rq_bytes = [], rq_size = 0\<rparr>"

definition micronucleus_start :: "pdata \<Rightarrow> world \<Rightarrow> fault + (int \<times> world)" where
  "micronucleus_start pdata w =
     (case usb_control_msg (usb_handle pdata) start_request w of
        Inl f \<Rightarrow> Inl f
      | Inr (result, b, w1) \<Rightarrow> if result < 0 then Inr (result, w1) else Inr (0, w1))"

subsection \<open>The capability interface\<close>

definition micronucleus_initialize :: "pdata \<Rightarrow> world \<Rightarrow> fault + (int \<times> pdata \<times> world)" where
  "micronucleus_initialize pdata w =
     (case micronucleus_get_bootloader_info pdata w of
        Inl f \<Rightarrow> Inl f
      | Inr (result, pdata1, w1) \<Rightarrow>
          if result < 0 then Inr (result, pdata1, w1) else Inr (0, pdata1, w1))"

text \<open>\<^verbatim>\<open>micronucleus_powerdown\<close> returns nothing and ignores both return codes.\<close>

definition micronucleus_powerdown :: "pdata \<Rightarrow> world \<Rightarrow> fault + (pdata \<times> world)" where
  "micronucleus_powerdown pdata w =
     (case (if write_last_page pdata then
              (case micronucleus_write_page (pdata\<lparr>write_last_page := False\<rparr>)
                      (word_of_int (uint (bootloader_start pdata) - uint (page_size pdata)))
                      (replicate (unat (page_size pdata)) 0xFF)
                      (ucast (page_size pdata)) w of
                 Inl f \<Rightarrow> Inl f
               | Inr (result, pdata1, w1) \<Rightarrow> Inr (pdata1, w1))
            else Inr (pdata, w)) of
        Inl f \<Rightarrow> Inl f
      | Inr (pdata2, w2) \<Rightarrow>
          if start_program pdata2 then
            (case micronucleus_start (pdata2\<lparr>start_program := False\<rparr>) w2 of
               Inl f \<Rightarrow> Inl f
             | Inr (result, w3) \<Rightarrow> Inr (pdata2\<lparr>start_program := False\<rparr>, w3))
          else Inr (pdata2, w2))"

text \<open>
  avrdude's \<^verbatim>\<open>AVRMEM\<close>: the declared size, the buffer, and what the macro
  \<^verbatim>\<open>mem_is_flash\<close> answers for it.
\<close>

record avrmem =
  mem_size :: int
  mem_buf :: "u8 list"
  mem_is_flash :: bool

definition micronucleus_read_sig_bytes :: "pdata \<Rightarrow> avrmem \<Rightarrow> fault + (int \<times> avrmem)" where
  "micronucleus_read_sig_bytes pdata mem =
     (if mem_size mem < 3 then Inr (-1, mem)
      else if length (mem_buf mem) < 3 then Inl OutOfBounds
      else Inr (0, mem\<lparr>mem_buf := (mem_buf mem)[0 := 0x1E, 1 := signature1 pdata,
                                                 2 := signature2 pdata]\<rparr>))"

text \<open>
  The \<^verbatim>\<open>while\<close> loop of \<^verbatim>\<open>micronucleus_paged_write\<close>. With a device page size of 0 the
  chunk is empty and the loop runs until a page write fails, so it is a partial function:
  \<open>None\<close> is the loop that never ends.
\<close>

partial_function (option) paged_write_loop ::
  "avrmem \<Rightarrow> u32 \<Rightarrow> u32 \<Rightarrow> int \<Rightarrow> pdata \<Rightarrow> world \<Rightarrow> (fault + (int \<times> pdata \<times> world)) option" where
  "paged_write_loop mem addr n_bytes result pdata w =
     (if n_bytes > 0 then
        (let chunk_size = (if n_bytes < ucast (page_size pdata) then n_bytes
                           else ucast (page_size pdata))
         in if unat addr + unat chunk_size > length (mem_buf mem) then Some (Inl OutOfBounds)
            else
              (case micronucleus_write_page pdata addr
                      (take (unat chunk_size) (drop (unat addr) (mem_buf mem)) @
                       replicate (unat (page_size pdata) - unat chunk_size) 0xFF)
                      (ucast (page_size pdata)) w of
                 Inl f \<Rightarrow> Some (Inl f)
               | Inr (result1, pdata1, w1) \<Rightarrow>
                   if result1 < 0 then Some (Inr (result1, pdata1, w1))
                   else paged_write_loop mem (addr + chunk_size) (n_bytes - chunk_size)
                          result1 pdata1 w1))
      else Some (Inr (result, pdata, w)))"

definition micronucleus_paged_write ::
  "pdata \<Rightarrow> avrmem \<Rightarrow> u32 \<Rightarrow> u32 \<Rightarrow> u32 \<Rightarrow> world \<Rightarrow> (fault + (int \<times> pdata \<times> world)) option" where
  "micronucleus_paged_write pdata mem page_size_arg addr n_bytes w =
     (if mem_is_flash mem then
        (if n_bytes > page_size_arg then Some (Inr (-1, pdata, w))
         else if addr + n_bytes > ucast (flash_size pdata) then Some (Inr (-1, pdata, w))
         else paged_write_loop mem addr n_bytes 0 pdata w)
      else Some (Inr (-1, pdata, w)))"

subsection \<open>Device discovery\<close>

text \<open>
  Modelled from the spec: \<^verbatim>\<open>str_eq\<close> and \<^verbatim>\<open>str_starts\<close> are avrdude's string helpers,
  which are not among the sources; the spec has names "match exactly", and a locator
  start with \<^verbatim>\<open>usb\<close>.
\<close>

definition str_eq :: "string \<Rightarrow> string \<Rightarrow> bool" where
  "str_eq s1 s2 = (s1 = s2)"

definition str_starts :: "string \<Rightarrow> string \<Rightarrow> bool" where
  "str_starts str starts = (take (length starts) str = starts)"

text \<open>
  The locator parsing at the head of \<^verbatim>\<open>micronucleus_open\<close>: the values of \<^verbatim>\<open>port\<close>,
  \<^verbatim>\<open>bus_name\<close> and \<^verbatim>\<open>dev_name\<close> before the check, \<open>None\<close> for \<^verbatim>\<open>NULL\<close>. The source cuts
  the string in place at the first colon that \<^verbatim>\<open>strchr\<close> finds after \<^verbatim>\<open>usb:\<close>.
\<close>

definition parse_port :: "string \<Rightarrow> string option \<times> string option \<times> string option" where
  "parse_port port =
     (if str_eq port ''usb'' then (None, None, None)
      else if str_starts port ''usb'' \<and> 3 < length port \<and> port ! 3 = CHR '':'' then
        (if CHR '':'' \<in> set (drop 4 port)
         then (Some port, Some (takeWhile (\<lambda>c. c \<noteq> CHR '':'') (drop 4 port)),
               Some (tl (dropWhile (\<lambda>c. c \<noteq> CHR '':'') (drop 4 port))))
         else (Some port, Some (drop 4 port), None))
      else (Some port, None, None))"

definition micronucleus_is_device_responsive ::
  "pdata \<Rightarrow> usb_device \<Rightarrow> world \<Rightarrow> fault + (bool \<times> pdata \<times> world)" where
  "micronucleus_is_device_responsive pdata device w =
     (case usb_open device w of
        (h, w1) \<Rightarrow>
          if h = None then Inr (False, pdata\<lparr>usb_handle := h\<rparr>, w1)
          else
            (case micronucleus_check_connection (pdata\<lparr>usb_handle := h\<rparr>) w1 of
               Inl f \<Rightarrow> Inl f
             | Inr (result, w2) \<Rightarrow>
                 (case usb_close h w2 of
                    Inl f \<Rightarrow> Inl f
                  | Inr w3 \<Rightarrow> Inr (result \<ge> 0, pdata\<lparr>usb_handle := None\<rparr>, w3))))"

text \<open>
  The test \<^verbatim>\<open>dev_name == NULL || !str_eq(bus->dirname, bus_name) || !str_eq(device->filename,
  dev_name)\<close> under \<^verbatim>\<open>port != NULL\<close>. (\<^verbatim>\<open>dev_name\<close> is only set when \<^verbatim>\<open>bus_name\<close> is.)
\<close>

definition locator_rejects ::
  "string option \<Rightarrow> string option \<Rightarrow> string option \<Rightarrow> usb_bus \<Rightarrow> usb_device \<Rightarrow> bool" where
  "locator_rejects port bus_name dev_name bus device =
     (case port of
        None \<Rightarrow> False
      | Some p \<Rightarrow>
          (case dev_name of
             None \<Rightarrow> True
           | Some dn \<Rightarrow>
               (case bus_name of
                  None \<Rightarrow> True
                | Some bn \<Rightarrow>
                    (if str_eq (dirname bus) bn then (if str_eq (filename device) dn then False else True)
                     else True))))"

text \<open>The inner \<^verbatim>\<open>for\<close> loop of \<^verbatim>\<open>micronucleus_open\<close>, over the devices of one bus.\<close>

fun scan_devices ::
  "string option \<Rightarrow> string option \<Rightarrow> string option \<Rightarrow> int \<Rightarrow> int \<Rightarrow> usb_bus \<Rightarrow>
   usb_device list \<Rightarrow> pdata \<Rightarrow> world \<Rightarrow> fault + (pdata \<times> world)" where
  "scan_devices port bus_name dev_name vid pid bus [] pdata w = Inr (pdata, w)"
| "scan_devices port bus_name dev_name vid pid bus (device # rest) pdata w =
     (if usb_handle pdata \<noteq> None then Inr (pdata, w)
      else if uint (idVendor device) = vid \<and> uint (idProduct device) = pid then
        (case micronucleus_is_device_responsive
                (pdata\<lparr>major_version := ucast (drop_bit 8 (bcdDevice device)),
                       minor_version := ucast (bcdDevice device)\<rparr>) device w of
           Inl f \<Rightarrow> Inl f
         | Inr (responsive, pdata2, w2) \<Rightarrow>
             if \<not> responsive then scan_devices port bus_name dev_name vid pid bus rest pdata2 w2
             else if locator_rejects port bus_name dev_name bus device
               then scan_devices port bus_name dev_name vid pid bus rest pdata2 w2
             else if major_version pdata2 > MICRONUCLEUS_MAX_MAJOR_VERSION
               then scan_devices port bus_name dev_name vid pid bus rest pdata2 w2
             else
               (case usb_open device w2 of
                  (h, w3) \<Rightarrow>
                    scan_devices port bus_name dev_name vid pid bus rest
                      (pdata2\<lparr>usb_handle := h\<rparr>) w3))
      else scan_devices port bus_name dev_name vid pid bus rest pdata w)"

text \<open>The outer \<^verbatim>\<open>for\<close> loop, over the busses.\<close>

fun scan_busses ::
  "string option \<Rightarrow> string option \<Rightarrow> string option \<Rightarrow> int \<Rightarrow> int \<Rightarrow>
   usb_bus list \<Rightarrow> pdata \<Rightarrow> world \<Rightarrow> fault + (pdata \<times> world)" where
  "scan_busses port bus_name dev_name vid pid [] pdata w = Inr (pdata, w)"
| "scan_busses port bus_name dev_name vid pid (bus # rest) pdata w =
     (if usb_handle pdata \<noteq> None then Inr (pdata, w)
      else
        (case scan_devices port bus_name dev_name vid pid bus (devices bus) pdata w of
           Inl f \<Rightarrow> Inl f
         | Inr (pdata1, w1) \<Rightarrow> scan_busses port bus_name dev_name vid pid rest pdata1 w1))"

text \<open>
  The \<^verbatim>\<open>for(;;)\<close> loop: enumerate, scan, and while nothing was found and the session waits
  for a device, sleep and scan again. With a negative timeout it may run forever: \<open>None\<close>.
\<close>

partial_function (option) open_loop ::
  "string option \<Rightarrow> string option \<Rightarrow> string option \<Rightarrow> int \<Rightarrow> int \<Rightarrow> int \<Rightarrow>
   pdata \<Rightarrow> world \<Rightarrow> (fault + (pdata \<times> world)) option" where
  "open_loop port bus_name dev_name vid pid start_time pdata w =
     (case scan_busses port bus_name dev_name vid pid (usb_busses w (trace w))
             (pdata\<lparr>usb_handle := None\<rparr>) w of
        Inl f \<Rightarrow> Some (Inl f)
      | Inr (pdata1, w1) \<Rightarrow>
          if usb_handle pdata1 = None \<and> wait_until_device_present pdata1 \<and>
             (wait_timout pdata1 < 0 \<or> clock w1 (trace w1) - start_time < wait_timout pdata1)
          then open_loop port bus_name dev_name vid pid start_time pdata1
                 (delay_ms MICRONUCLEUS_CONNECT_WAIT w1)
          else Some (Inr (pdata1, w1)))"

text \<open>
  \<^verbatim>\<open>micronucleus_open\<close>; \<open>usbvid\<close> and \<open>usbpid\<close> are the fields of the \<^verbatim>\<open>PROGRAMMER\<close> that
  it reads (the list of product ids as a list).
\<close>

definition micronucleus_open ::
  "int \<Rightarrow> int list \<Rightarrow> pdata \<Rightarrow> string \<Rightarrow> world \<Rightarrow> (fault + (int \<times> pdata \<times> world)) option" where
  "micronucleus_open usbvid usbpid pdata port w =
     (case parse_port port of
        (port1, bus_name, dev_name) \<Rightarrow>
          if port1 \<noteq> None \<and> dev_name = None then Some (Inr (-1, pdata, w))
          else
            (case open_loop port1 bus_name dev_name
                    (if usbvid \<noteq> 0 then usbvid else MICRONUCLEUS_VID)
                    (case usbpid of [] \<Rightarrow> MICRONUCLEUS_PID | p # ps \<Rightarrow> p)
                    (clock w (trace w)) pdata w of
               None \<Rightarrow> None
             | Some (Inl f) \<Rightarrow> Some (Inl f)
             | Some (Inr (pdata1, w1)) \<Rightarrow>
                 if usb_handle pdata1 = None then Some (Inr (-1, pdata1, w1))
                 else Some (Inr (0, pdata1, w1))))"

definition micronucleus_close :: "pdata \<Rightarrow> world \<Rightarrow> pdata \<times> world" where
  "micronucleus_close pdata w =
     (case usb_handle pdata of
        None \<Rightarrow> (pdata, w)
      | Some d \<Rightarrow> (pdata\<lparr>usb_handle := None\<rparr>, w\<lparr>trace := trace w @ [Close d]\<rparr>))"

subsection \<open>Observations and concrete sessions\<close>

text \<open>The session a call leaves behind, when it returns.\<close>

definition session_of :: "fault + (int \<times> pdata \<times> world) \<Rightarrow> pdata option" where
  "session_of r = (case r of Inl f \<Rightarrow> None | Inr (c, pdata, w) \<Rightarrow> Some pdata)"

text \<open>The bootloader geometry: the fields the info resolver computes.\<close>

definition geometry :: "pdata \<Rightarrow> u16 \<times> u8 \<times> u16 \<times> u16 \<times> u8 \<times> u16 \<times> u8 \<times> u8" where
  "geometry pdata =
     (flash_size pdata, page_size pdata, pages pdata, bootloader_start pdata,
      write_sleep pdata, erase_sleep pdata, signature1 pdata, signature2 pdata)"

text \<open>
  A device, a fresh session of a given major version on it, and an environment in which
  every control transfer gets the same answer and every \<^verbatim>\<open>usb_open\<close> succeeds.
\<close>

definition example_device :: usb_device where
  "example_device =
     \<lparr>filename = ''004'', idVendor = 0x16D0, idProduct = 0x0753, bcdDevice = 0x0102\<rparr>"

definition example_world :: "int \<times> u8 list \<Rightarrow> world" where
  "example_world reply =
     \<lparr>trace = [], usb_reply = (\<lambda>h rq. reply), usb_open_ok = (\<lambda>h d. True),
      usb_busses = (\<lambda>h. []), clock = (\<lambda>h. 0), usb_access_error = False\<rparr>"

definition example_pdata :: "u8 \<Rightarrow> pdata" where
  "example_pdata major =
     \<lparr>usb_handle = Some example_device, wait_until_device_present = False, wait_timout = 0,
      major_version = major, minor_version = 0, flash_size = 0, page_size = 0,
      write_sleep = 0, signature1 = 0, signature2 = 0, pages = 0, bootloader_start = 0,
      erase_sleep = 0, user_reset_vector = 0, write_last_page = False,
      start_program = False\<rparr>"

text \<open>
  A session as the V1 resolver leaves it for a part with 4096 bytes of flash in pages of
  64 bytes, and a memory image of 8192 bytes.
\<close>

definition example_session :: "u8 \<Rightarrow> pdata" where
  "example_session major =
     (example_pdata major)\<lparr>flash_size := 4096, page_size := 64, write_sleep := 2,
        signature1 := 0x92, signature2 := 0x06, pages := 64, bootloader_start := 4096,
        erase_sleep := 128\<rparr>"

definition example_mem :: avrmem where
  "example_mem = \<lparr>mem_size = 8192, mem_buf = replicate 8192 0, mem_is_flash = True\<rparr>"

text \<open>
  The calls of \<^verbatim>\<open>micronucleus_write_page\<close> in a trace, in order: address, buffer and size
  of each.
\<close>

fun page_write_of :: "event \<Rightarrow> (nat \<times> u8 list \<times> nat) list" where
  "page_write_of (WritePage address buffer sz) = [(unat address, buffer, unat sz)]"
| "page_write_of (Ctrl d rq) = []"
| "page_write_of (Usleep us) = []"
| "page_write_of (Open d ok) = []"
| "page_write_of (Close d) = []"

definition page_writes :: "event list \<Rightarrow> (nat \<times> u8 list \<times> nat) list" where
  "page_writes t = concat (map page_write_of t)"

text \<open>
  The page writes of a whole call, \<open>[]\<close> when it does not return or faults.
\<close>

definition written_pages ::
  "(fault + (int \<times> pdata \<times> world)) option \<Rightarrow> (nat \<times> u8 list \<times> nat) list" where
  "written_pages r =
     (case r of
        None \<Rightarrow> []
      | Some (Inl f) \<Rightarrow> []
      | Some (Inr (c, pdata, w)) \<Rightarrow> page_writes (trace w))"

text \<open>
  The chunking in the spec's words: \<open>S\<close> bytes of the image from address \<open>addr\<close> go out in
  \<open>ceil(S/P)\<close> chunks, the chunk \<open>k\<close> at address \<open>addr + k * P\<close>, each of length \<open>P\<close>: the
  bytes of the image that are left, at most \<open>P\<close> of them, padded with \<open>0xFF\<close>.
\<close>

definition pad_page :: "nat \<Rightarrow> u8 list \<Rightarrow> u8 list" where
  "pad_page P xs = take P (xs @ replicate P 0xFF)"

definition spec_chunks :: "u8 list \<Rightarrow> nat \<Rightarrow> nat \<Rightarrow> nat \<Rightarrow> (nat \<times> u8 list \<times> nat) list" where
  "spec_chunks img addr S P =
     map (\<lambda>k. (addr + k * P, pad_page P (take (S - k * P) (drop (addr + k * P) img)), P))
       [0..<(S + P - 1) div P]"

text \<open>The session that \<^verbatim>\<open>micronucleus_powerdown\<close> leaves behind, when it returns.\<close>

definition final_session :: "fault + (pdata \<times> world) \<Rightarrow> pdata option" where
  "final_session r = (case r of Inl f \<Rightarrow> None | Inr (pdata, w) \<Rightarrow> Some pdata)"

text \<open>
  The address of the last page before the bootloader, as \<^verbatim>\<open>micronucleus_write_page\<close>
  compares it and \<^verbatim>\<open>micronucleus_powerdown\<close> passes it:
  \<^verbatim>\<open>(uint32_t) (bootloader_start - page_size)\<close>.
\<close>

definition last_page_address :: "pdata \<Rightarrow> u32" where
  "last_page_address pdata =
     word_of_int (uint (bootloader_start pdata) - uint (page_size pdata))"

text \<open>
  A V1 session on a part whose flash is a single page of 64 bytes (the info block
  \<open>[0x00, 0x40, 0x40, 0x02]\<close>).
\<close>

definition single_page_session :: pdata where
  "single_page_session =
     (example_pdata 1)\<lparr>flash_size := 64, page_size := 64, write_sleep := 2,
        signature1 := 0x92, signature2 := 0x06, pages := 1, bootloader_start := 64,
        erase_sleep := 2\<rparr>"

text \<open>
  A V2 session on a part with 32 bytes of flash in pages of 8 bytes, with both session
  flags pending and the captured reset vector 5.
\<close>

definition small_v2_session :: pdata where
  "small_v2_session =
     (example_pdata 2)\<lparr>flash_size := 32, page_size := 8, write_sleep := 2,
        signature1 := 0x93, signature2 := 0x0B, pages := 4, bootloader_start := 32,
        erase_sleep := 8, user_reset_vector := 5, write_last_page := True,
        start_program := True\<rparr>"

text \<open>
  The connection check of a session: its info request and the byte count that
  \<^verbatim>\<open>micronucleus_check_connection\<close> accepts.
\<close>

definition check_request :: "pdata \<Rightarrow> usb_request" where
  "check_request pdata = info_request (if major_version pdata \<ge> 2 then 6 else 4)"

definition check_size :: "pdata \<Rightarrow> int" where
  "check_size pdata = (if major_version pdata \<ge> 2 then 6 else 4)"

text \<open>
  The events of \<open>k\<close> failed attempts to reopen a device: each a \<^verbatim>\<open>usb_open\<close> that returns
  \<^verbatim>\<open>NULL\<close> and the sleep of \<^verbatim>\<open>MICRONUCLEUS_CONNECT_WAIT\<close> milliseconds after it.
\<close>

definition failed_opens :: "usb_device \<Rightarrow> nat \<Rightarrow> event list" where
  "failed_opens d k =
     concat (replicate k [Open d False, Usleep (MICRONUCLEUS_CONNECT_WAIT * 1000)])"

text \<open>
  An environment that answers the erase command with \<open>r\<close> and every other control transfer
  with \<open>rc\<close>, and in which \<^verbatim>\<open>usb_open\<close> succeeds once the trace has \<open>n\<close> events.
\<close>

definition erase_world :: "int \<Rightarrow> int \<Rightarrow> nat \<Rightarrow> world" where
  "erase_world r rc n =
     \<lparr>trace = [],
      usb_reply = (\<lambda>h rq. if rq_cmd rq = MICRONUCLEUS_CMD_ERASE then (r, []) else (rc, [])),
      usb_open_ok = (\<lambda>h d. n \<le> length h), usb_busses = (\<lambda>h. []), clock = (\<lambda>h. 0),
      usb_access_error = False\<rparr>"

text \<open>
  The session as the scan leaves it when it looks at a matching device: the version read
  from the device descriptor.
\<close>

definition probed :: "pdata \<Rightarrow> usb_device \<Rightarrow> pdata" where
  "probed pdata device =
     pdata\<lparr>major_version := ucast (drop_bit 8 (bcdDevice device)),
           minor_version := ucast (bcdDevice device)\<rparr>"

text \<open>
  A second device, named \<open>005\<close>, and an environment with one bus \<open>001\<close> that holds it
  before the device \<open>004\<close>; both answer the info request with a V1 block.
\<close>

definition device_005 :: usb_device where
  "device_005 = example_device\<lparr>filename := ''005''\<rparr>"

definition discovery_world :: world where
  "discovery_world =
     \<lparr>trace = [], usb_reply = (\<lambda>h rq. (4, [0x10, 0x00, 0x40, 0x02])),
      usb_open_ok = (\<lambda>h d. True),
      usb_busses = (\<lambda>h. [\<lparr>dirname = ''001'', devices = [device_005, example_device]\<rparr>]),
      clock = (\<lambda>h. 0), usb_access_error = False\<rparr>"

text \<open>
  The scan from a position inside the two loops of \<^verbatim>\<open>micronucleus_open\<close>: the devices of the
  current bus that the inner loop has still to look at, then the busses after the current
  one. These are the remaining candidates, in the order in which the loops reach them.
\<close>

definition scan_rest ::
  "string option \<Rightarrow> string option \<Rightarrow> string option \<Rightarrow> int \<Rightarrow> int \<Rightarrow> usb_bus \<Rightarrow>
   usb_device list \<Rightarrow> usb_bus list \<Rightarrow> pdata \<Rightarrow> world \<Rightarrow> fault + (pdata \<times> world)" where
  "scan_rest port bus_name dev_name vid pid bus devs busses pdata w =
     (case scan_devices port bus_name dev_name vid pid bus devs pdata w of
        Inl f \<Rightarrow> Inl f
      | Inr (pdata1, w1) \<Rightarrow> scan_busses port bus_name dev_name vid pid busses pdata1 w1)"

text \<open>
  What a call of \<^verbatim>\<open>micronucleus_open\<close> that returns leaves to see: its return code, the
  handle it retains and the history of the environment.
\<close>

definition open_outcome ::
  "(fault + (int \<times> pdata \<times> world)) option \<Rightarrow> (int \<times> usb_device option \<times> event list) option" where
  "open_outcome r =
     (case r of
        None \<Rightarrow> None
      | Some (Inl f) \<Rightarrow> None
      | Some (Inr (c, pdata, w)) \<Rightarrow> Some (c, usb_handle pdata, trace w))"

text \<open>
  An environment with the device \<open>005\<close> alone on the bus \<open>001\<close> and the device \<open>004\<close> on a
  second bus \<open>002\<close>.
\<close>

definition split_world :: world where
  "split_world =
     discovery_world\<lparr>usb_busses :=
        (\<lambda>h. [\<lparr>dirname = ''001'', devices = [device_005]\<rparr>,
              \<lparr>dirname = ''002'', devices = [example_device]\<rparr>])\<rparr>"







text \<open>A signature memory of \<open>n\<close> bytes.\<close>

definition example_sig_mem :: "nat \<Rightarrow> avrmem" where
  "example_sig_mem n = \<lparr>mem_size = int n, mem_buf = replicate n 0xFF, mem_is_flash = False\<rparr>"

text \<open>
  The invariant of the bootloader geometry in the spec's words: the page count is the
  ceiling of flash size over page size (\<open>n\<close> is that ceiling exactly when
  \<open>flash_size \<le> n * page_size < flash_size + page_size\<close>), and the bootloader starts at
  page count times page size.
\<close>

definition spec_geometry_invariant :: "pdata \<Rightarrow> bool" where
  "spec_geometry_invariant pdata =
     (uint (flash_size pdata) \<le> uint (pages pdata) * uint (page_size pdata)
      \<and> uint (pages pdata) * uint (page_size pdata) < uint (flash_size pdata) + uint (page_size pdata)
      \<and> uint (bootloader_start pdata) = uint (pages pdata) * uint (page_size pdata))"

text \<open>
  The V2 timing in the spec's words, for the fourth byte of the info block: the write
  sleep is its low 7 bits plus 2, the erase sleep is write sleep times page count, divided
  by 4 when bit 7 is set.
\<close>

definition spec_v2_timing :: "u8 \<Rightarrow> pdata \<Rightarrow> bool" where
  "spec_v2_timing byte4 pdata =
     (uint (write_sleep pdata) = uint (byte4 AND 127) + 2
      \<and> uint (erase_sleep pdata) =
          (if byte4 AND 128 \<noteq> 0 then (uint (write_sleep pdata) * uint (pages pdata)) div 4
           else uint (write_sleep pdata) * uint (pages pdata)))"

section \<open>Lemmas about the model\<close>

subsection \<open>Arithmetic\<close>

lemma uint_u16_of_int: "uint (word_of_int x :: u16) = x mod 65536"
  by (simp add: uint_word_of_int)

lemma ceil_div_bounds:
  fixes F P :: int
  assumes "0 \<le> F" "0 < P"
  shows "0 \<le> (F + P - 1) div P" and "(F + P - 1) div P \<le> F"
    and "F \<le> (F + P - 1) div P * P" and "(F + P - 1) div P * P < F + P"
proof -
  define q where "q = (F + P - 1) div P"
  define r where "r = (F + P - 1) mod P"
  have eq: "F + P - 1 = q * P + r"
    unfolding q_def r_def by simp
  have r: "0 \<le> r" "r < P"
    unfolding r_def using assms by simp_all
  show "F \<le> (F + P - 1) div P * P" and "(F + P - 1) div P * P < F + P"
    using eq r unfolding q_def by linarith+
  show "0 \<le> (F + P - 1) div P"
    using assms by (simp add: pos_imp_zdiv_nonneg_iff)
  show "(F + P - 1) div P \<le> F"
  proof (cases "q \<le> 0")
    case True
    then show ?thesis using assms unfolding q_def by linarith
  next
    case False
    then have "(q - 1) * 1 \<le> (q - 1) * P"
      using assms by (intro mult_left_mono) simp_all
    then show ?thesis using eq r unfolding q_def by (simp add: algebra_simps)
  qed
qed

lemma uint_ceil_pages:
  fixes fs :: u16 and ps :: u8
  assumes "ps \<noteq> 0"
  shows "uint (word_of_int ((uint fs + uint ps - 1) div uint ps) :: u16)
           = (uint fs + uint ps - 1) div uint ps"
proof -
  have P: "0 < uint ps"
    using assms by (simp add: uint_0_iff order_less_le)
  have F: "0 \<le> uint fs" "uint fs < 65536"
    using uint_lt2p [of fs] by simp_all
  from ceil_div_bounds(1,2) [OF F(1) P]
  have "0 \<le> (uint fs + uint ps - 1) div uint ps" "(uint fs + uint ps - 1) div uint ps < 65536"
    using F by linarith+
  then show ?thesis by (simp add: uint_word_of_int)
qed

lemma unat_ucast_16_32: "unat (ucast (x :: u16) :: u32) = unat x"
  by (simp add: unsigned_ucast_eq take_bit_nat_eq_self_iff order_less_trans [OF unsigned_less])

lemma unat_ucast_8_32: "unat (ucast (x :: u8) :: u32) = unat x"
  by (simp add: unsigned_ucast_eq take_bit_nat_eq_self_iff order_less_trans [OF unsigned_less])

lemma sig_update:
  "3 \<le> length xs \<Longrightarrow> xs[0 := a, Suc 0 := b, 2 := c] = a # b # c # drop 3 xs"
proof -
  assume "3 \<le> length xs"
  then obtain x0 x1 x2 rest where "xs = x0 # x1 # x2 # rest"
    by (cases xs; cases "tl xs"; cases "tl (tl xs)") auto
  then show ?thesis by simp
qed

subsection \<open>The info resolver\<close>

lemma guess_signature_fields [simp]:
  "flash_size (guess_signature p) = flash_size p"
  "page_size (guess_signature p) = page_size p"
  "write_sleep (guess_signature p) = write_sleep p"
  by (simp_all add: guess_signature_def)

lemma calculated_info_fields [simp]:
  "flash_size (calculated_info p) = flash_size p"
  "page_size (calculated_info p) = page_size p"
  "write_sleep (calculated_info p) = write_sleep p"
  "signature1 (calculated_info p) = signature1 p"
  "signature2 (calculated_info p) = signature2 p"
  "pages (calculated_info p) =
     word_of_int ((uint (flash_size p) + uint (page_size p) - 1) div uint (page_size p))"
  "bootloader_start (calculated_info p) =
     word_of_int (uint (pages (calculated_info p)) * uint (page_size p))"
  "erase_sleep (calculated_info p) =
     word_of_int (uint (write_sleep p) * uint (pages (calculated_info p)))"
  by (simp_all add: calculated_info_def Let_def)

lemma info_v1_decoded:
  "micronucleus_get_bootloader_info_v1 pdata w = Inr (0, pd', w') \<Longrightarrow>
     page_size pd' \<noteq> 0 \<and>
     pages pd' = word_of_int
       ((uint (flash_size pd') + uint (page_size pd') - 1) div uint (page_size pd')) \<and>
     bootloader_start pd' = word_of_int (uint (pages pd') * uint (page_size pd'))"
  unfolding micronucleus_get_bootloader_info_v1_def Let_def
  by (auto split: sum.splits prod.splits if_splits)

lemma info_v2_decoded:
  "micronucleus_get_bootloader_info_v2 pdata w = Inr (0, pd', w') \<Longrightarrow>
     page_size pd' \<noteq> 0 \<and>
     pages pd' = word_of_int
       ((uint (flash_size pd') + uint (page_size pd') - 1) div uint (page_size pd')) \<and>
     bootloader_start pd' = word_of_int (uint (pages pd') * uint (page_size pd'))"
  unfolding micronucleus_get_bootloader_info_v2_def Let_def
  by (auto split: sum.splits prod.splits if_splits)

lemma uint_low7: "uint (word_of_int (uint ((b :: u8) AND 127) + 2) :: u8) = uint (b AND 127) + 2"
proof -
  have "uint (b AND 127) \<le> 127"
    by (simp add: uint_and AND_upper2)
  moreover have "0 \<le> uint (b AND 127)" by simp
  ultimately show ?thesis by (simp add: uint_word_ariths)
qed

lemma info_v2_result:
  assumes "usb_handle pdata = Some d"
    and "usb_reply w (trace w) (info_request 6) = (6, block)"
    and "length block = 6" and "block ! 2 \<noteq> 0"
  shows "\<exists>pd' w'. micronucleus_get_bootloader_info_v2 pdata w = Inr (0, pd', w')
     \<and> write_sleep pd' = word_of_int (uint ((block ! 3) AND 127) + 2)
     \<and> page_size pd' = block ! 2
     \<and> signature1 pd' = block ! 4 \<and> signature2 pd' = block ! 5
     \<and> erase_sleep pd' =
         (if (block ! 3) AND 128 \<noteq> 0
          then word_of_int (uint (write_sleep pd') * uint (pages pd')) div 4
          else word_of_int (uint (write_sleep pd') * uint (pages pd')))"
  using assms
  by (simp add: micronucleus_get_bootloader_info_v2_def usb_control_msg_def Let_def
      info_request_def)

subsection \<open>What the operations leave of the geometry\<close>

lemma geometry_frame [simp]:
  "geometry (p\<lparr>usb_handle := h\<rparr>) = geometry p"
  "geometry (p\<lparr>major_version := a\<rparr>) = geometry p"
  "geometry (p\<lparr>minor_version := b\<rparr>) = geometry p"
  "geometry (p\<lparr>user_reset_vector := v\<rparr>) = geometry p"
  "geometry (p\<lparr>write_last_page := x\<rparr>) = geometry p"
  "geometry (p\<lparr>start_program := y\<rparr>) = geometry p"
  by (simp_all add: geometry_def)

lemma write_page_prepare_geometry:
  "write_page_prepare pdata address buffer = Inr (r, pd', b') \<Longrightarrow>
     geometry pd' = geometry pdata"
  by (auto simp: write_page_prepare_def micronucleus_patch_reset_vector_def geometry_def
      split: sum.splits prod.splits if_splits option.splits)

lemma write_page_geometry:
  "micronucleus_write_page pdata address buffer sz w = Inr (r, pd', w') \<Longrightarrow>
     geometry pd' = geometry pdata"
  by (auto simp: micronucleus_write_page_def Let_def dest: write_page_prepare_geometry
      split: sum.splits prod.splits if_splits)

lemma paged_write_loop_geometry_aux:
  assumes "paged_write_loop mem addr n_bytes result pdata w = Some y"
  shows "\<forall>r pd' w'. y = Inr (r, pd', w') \<longrightarrow> geometry pd' = geometry pdata"
  using assms
proof (induct rule: paged_write_loop.raw_induct [rotated 1, consumes 1, case_names step])
  case (step loop mem addr n_bytes result pdata w y)
  have IH: "geometry pd' = geometry p"
    if "loop m a n r0 p v = Some (Inr (r, pd', w'))" for m a n r0 p v r pd' w'
    using step(1) [OF that] by simp
  from step(2) show ?case
    by (auto simp: Let_def dest!: write_page_geometry IH
        split: if_splits sum.splits prod.splits)
qed

lemma paged_write_geometry:
  "micronucleus_paged_write pdata mem page_size_arg addr n_bytes w = Some (Inr (r, pd', w')) \<Longrightarrow>
     geometry pd' = geometry pdata"
  using paged_write_loop_geometry_aux
  by (auto simp: micronucleus_paged_write_def split: if_splits)

lemma powerdown_geometry:
  "micronucleus_powerdown pdata w = Inr (pd', w') \<Longrightarrow> geometry pd' = geometry pdata"
  unfolding micronucleus_powerdown_def
  by (auto simp: geometry_def dest!: write_page_geometry split: if_splits sum.splits prod.splits)

lemma reconnect_loop_geometry:
  "reconnect_loop i device pdata w = (r, pd', w') \<Longrightarrow> geometry pd' = geometry pdata"
proof (induction i device pdata w rule: reconnect_loop.induct)
  case (1 i device pdata w)
  show ?case
  proof (cases "i < 25")
    case True
    obtain h w1 where o: "usb_open device w = (h, w1)"
      by (cases "usb_open device w")
    show ?thesis
    proof (cases "h = None")
      case True
      with 1 \<open>i < 25\<close> o show ?thesis
        by (subst (asm) (2) reconnect_loop.simps) (auto simp: geometry_def)
    next
      case False
      with 1 \<open>i < 25\<close> o show ?thesis
        by (subst (asm) (2) reconnect_loop.simps) (auto simp: geometry_def)
    qed
  next
    case False
    with 1 show ?thesis
      by (subst (asm) (2) reconnect_loop.simps) auto
  qed
qed

lemma reconnect_geometry:
  "micronucleus_reconnect pdata w = Inr (r, pd', w') \<Longrightarrow> geometry pd' = geometry pdata"
  by (auto simp: micronucleus_reconnect_def geometry_def dest!: reconnect_loop_geometry
      split: option.splits sum.splits)

lemma erase_device_geometry:
  "micronucleus_erase_device eio epipe pdata w = Inr (r, pd', w') \<Longrightarrow>
     geometry pd' = geometry pdata"
  unfolding micronucleus_erase_device_def
  by (auto dest!: reconnect_geometry split: sum.splits prod.splits if_splits)

subsection \<open>Traces of page writes\<close>

lemma page_writes_simps [simp]:
  "page_writes [] = []"
  "page_writes (xs @ ys) = page_writes xs @ page_writes ys"
  "page_writes (e # xs) = page_write_of e @ page_writes xs"
  by (simp_all add: page_writes_def)

lemma usb_control_msg_trace:
  "usb_control_msg h rq w = Inr (r, b, w') \<Longrightarrow>
     \<exists>d. h = Some d \<and> w' = w\<lparr>trace := trace w @ [Ctrl d rq]\<rparr>"
  by (auto simp: usb_control_msg_def split: option.splits prod.splits)

lemma write_page_v1_trace:
  "micronucleus_write_page_v1 pdata address buffer sz w = Inr (r, w') \<Longrightarrow>
     \<exists>evs. w' = w\<lparr>trace := trace w @ evs\<rparr> \<and> page_writes evs = []"
  by (auto simp: micronucleus_write_page_v1_def dest!: usb_control_msg_trace
      split: if_splits sum.splits prod.splits)

lemma write_page_v2_loop_trace:
  "write_page_v2_loop i pdata buffer sz w = Inr (r, w') \<Longrightarrow>
     \<exists>evs. w' = w\<lparr>trace := trace w @ evs\<rparr> \<and> page_writes evs = []"
proof (induction i pdata buffer sz w rule: write_page_v2_loop.induct)
  case (1 i pdata buffer sz w)
  show ?case
  proof (cases "i < unat sz")
    case False
    with "1.prems" have "w' = w"
      by (subst (asm) write_page_v2_loop.simps) simp
    then show ?thesis by (intro exI [of _ "[]"]) simp
  next
    case True
    let ?rq = "\<lparr>rq_dir = USB_ENDPOINT_OUT, rq_cmd = MICRONUCLEUS_CMD_PROGRAM,
                    rq_wvalue = push_bit 8 (uint (buffer ! (i + 1))) OR uint (buffer ! i),
                    rq_windex = push_bit 8 (uint (buffer ! (i + 3))) OR uint (buffer ! (i + 2)),
                    rq_bytes = [], rq_size = 0\<rparr>"
    from "1.prems" True have inb: "i + 3 < length buffer"
      by (subst (asm) write_page_v2_loop.simps) (simp split: if_splits)
    from "1.prems" True inb obtain result b w1 where
      u: "usb_control_msg (usb_handle pdata) ?rq w = Inr (result, b, w1)"
      by (subst (asm) write_page_v2_loop.simps) (auto split: sum.splits)
    from usb_control_msg_trace [OF u] obtain d where
      w1: "w1 = w\<lparr>trace := trace w @ [Ctrl d ?rq]\<rparr>" by blast
    show ?thesis
    proof (cases "result < 0")
      case neg: True
      with "1.prems" True inb u have "w' = w1"
        by (subst (asm) write_page_v2_loop.simps) simp
      with w1 show ?thesis
        by (intro exI [of _ "[Ctrl d ?rq]"]) simp
    next
      case nonneg: False
      with "1.prems" True inb u
      have rec: "write_page_v2_loop (i + 4) pdata buffer sz w1 = Inr (r, w')"
        by (subst (asm) write_page_v2_loop.simps) simp
      from "1.IH" [OF True inb u refl refl nonneg rec] obtain evs where
        "w' = w1\<lparr>trace := trace w1 @ evs\<rparr>" "page_writes evs = []"
        by blast
      with w1 show ?thesis
        by (intro exI [of _ "Ctrl d ?rq # evs"]) simp
    qed
  qed
qed

lemma write_page_v2_trace:
  "micronucleus_write_page_v2 pdata address buffer sz w = Inr (r, w') \<Longrightarrow>
     \<exists>evs. w' = w\<lparr>trace := trace w @ evs\<rparr> \<and> page_writes evs = []"
proof -
  assume a: "micronucleus_write_page_v2 pdata address buffer sz w = Inr (r, w')"
  let ?rq = "\<lparr>rq_dir = USB_ENDPOINT_OUT, rq_cmd = MICRONUCLEUS_CMD_TRANSFER,
              rq_wvalue = sint sz, rq_windex = sint address,
              rq_bytes = [], rq_size = 0\<rparr>"
  from a obtain result b w1 where
    u: "usb_control_msg (usb_handle pdata) ?rq w = Inr (result, b, w1)"
    by (auto simp: micronucleus_write_page_v2_def split: sum.splits)
  from usb_control_msg_trace [OF u] obtain d where
    w1: "w1 = w\<lparr>trace := trace w @ [Ctrl d ?rq]\<rparr>" by blast
  show ?thesis
  proof (cases "result < 0")
    case True
    with a u have "w' = w1" by (simp add: micronucleus_write_page_v2_def)
    with w1 show ?thesis by (intro exI [of _ "[Ctrl d ?rq]"]) simp
  next
    case False
    with a u have "write_page_v2_loop 0 pdata buffer sz w1 = Inr (r, w')"
      by (simp add: micronucleus_write_page_v2_def)
    from write_page_v2_loop_trace [OF this] obtain evs where
      "w' = w1\<lparr>trace := trace w1 @ evs\<rparr>" "page_writes evs = []"
      by blast
    with w1 show ?thesis
      by (intro exI [of _ "Ctrl d ?rq # evs"]) simp
  qed
qed

text \<open>A page write logs its call first; nothing after it in the trace is another call.\<close>

lemma write_page_trace:
  assumes "micronucleus_write_page pdata address buffer sz w = Inr (r, pd', w')"
  shows "\<exists>evs. w' = w\<lparr>trace := trace w @ WritePage address buffer sz # evs\<rparr>
           \<and> page_writes evs = []"
proof -
  let ?w0 = "w\<lparr>trace := trace w @ [WritePage address buffer sz]\<rparr>"
  from assms obtain result0 pdata1 buffer1 where
    p: "write_page_prepare pdata address buffer = Inr (result0, pdata1, buffer1)"
    by (auto simp: micronucleus_write_page_def Let_def split: sum.splits)
  show ?thesis
  proof (cases "result0 < 0")
    case True
    with assms p have "w' = ?w0"
      by (simp add: micronucleus_write_page_def Let_def)
    then show ?thesis by (intro exI [of _ "[]"]) simp
  next
    case False
    with assms p obtain result w1 where
      t: "(if major_version pdata1 \<ge> 2
           then micronucleus_write_page_v2 pdata1 address buffer1 sz ?w0
           else micronucleus_write_page_v1 pdata1 address buffer1 sz ?w0) = Inr (result, w1)"
      and w': "w' = (if result < 0 then w1 else delay_ms (ucast (write_sleep pdata1)) w1)"
      by (auto simp: micronucleus_write_page_def Let_def split: sum.splits if_splits)
    from t obtain evs where
      evs: "w1 = ?w0\<lparr>trace := trace ?w0 @ evs\<rparr>" "page_writes evs = []"
      using write_page_v1_trace write_page_v2_trace by (metis (full_types))
    show ?thesis
    proof (cases "result < 0")
      case True
      with w' evs show ?thesis by (intro exI [of _ evs]) simp
    next
      case False
      with w' evs show ?thesis
        by (intro exI [of _ "evs @ [Usleep (ucast (write_sleep pdata1) * 1000)]"])
          (simp add: delay_ms_def)
    qed
  qed
qed

subsection \<open>The chunks of a paged write\<close>

lemma length_pad_page [simp]: "length (pad_page P xs) = P"
  by (simp add: pad_page_def)

lemma ceil_step:
  fixes S P :: nat
  assumes "0 < S" "0 < P"
  shows "(S + P - 1) div P = Suc ((S - min S P + P - 1) div P)"
proof (cases "S \<le> P")
  case True
  with assms have "(S + P - 1) div P = 1"
    by (intro div_nat_eqI) simp_all
  moreover from True assms have "(S - min S P + P - 1) div P = 0"
    by simp
  ultimately show ?thesis by simp
next
  case False
  then have e: "S + P - 1 = (S - 1) + P" "S - min S P + P - 1 = S - 1"
    using assms by simp_all
  have "((S - 1) + P) div P = Suc ((S - 1) div P)"
    using assms(2) div_add_self2 [of P "S - 1"] by simp
  then show ?thesis unfolding e .
qed

lemma upt_Suc_shift: "[0..<Suc n] = 0 # map Suc [0..<n]"
  by (simp add: upt_conv_Cons map_Suc_upt del: upt_Suc)

lemma spec_chunks_step:
  assumes "0 < S" "0 < P"
  shows "spec_chunks img addr S P =
     (addr, pad_page P (take S (drop addr img)), P)
       # spec_chunks img (addr + min S P) (S - min S P) P"
proof -
  have "spec_chunks img addr S P =
      map (\<lambda>k. (addr + k * P, pad_page P (take (S - k * P) (drop (addr + k * P) img)), P))
       (0 # map Suc [0..<(S - min S P + P - 1) div P])"
    unfolding spec_chunks_def ceil_step [OF assms] upt_Suc_shift ..
  also have "\<dots> = (addr, pad_page P (take S (drop addr img)), P)
      # map (\<lambda>k. (addr + Suc k * P,
            pad_page P (take (S - Suc k * P) (drop (addr + Suc k * P) img)), P))
         [0..<(S - min S P + P - 1) div P]"
    by (simp add: comp_def)
  also have "map (\<lambda>k. (addr + Suc k * P,
            pad_page P (take (S - Suc k * P) (drop (addr + Suc k * P) img)), P))
         [0..<(S - min S P + P - 1) div P]
      = spec_chunks img (addr + min S P) (S - min S P) P"
  proof (cases "S \<le> P")
    case True
    with assms have "(S - min S P + P - 1) div P = 0" by simp
    then show ?thesis by (simp add: spec_chunks_def)
  next
    case False
    then have m: "min S P = P" by simp
    have "addr + Suc k * P = addr + P + k * P" "S - Suc k * P = S - P - k * P" for k
      by simp_all
    then show ?thesis
      unfolding spec_chunks_def m by (simp add: add.assoc)
  qed
  finally show ?thesis .
qed

lemma spec_chunks_empty [simp]: "0 < P \<Longrightarrow> spec_chunks img addr 0 P = []"
  by (simp add: spec_chunks_def)

lemma spec_chunks_shape:
  "length (spec_chunks img addr S P) = (S + P - 1) div P"
  "\<forall>c \<in> set (spec_chunks img addr S P). length (fst (snd c)) = P \<and> snd (snd c) = P"
  "sum_list (map (\<lambda>c. length (fst (snd c))) (spec_chunks img addr S P))
     = ((S + P - 1) div P) * P"
  by (auto simp: spec_chunks_def comp_def sum_list_triv)

text \<open>The page buffer that the loop fills is the padded chunk of the spec.\<close>

lemma page_buffer_eq:
  assumes "addr + min S P \<le> length img"
  shows "take (min S P) (drop addr img) @ replicate (P - min S P) 0xFF
     = pad_page P (take S (drop addr img))"
proof (cases "S \<le> P")
  case True
  with assms have "length (take S (drop addr img)) = S" by simp
  with True show ?thesis by (simp add: pad_page_def min_absorb1)
next
  case False
  then have m: "min S P = P" by simp
  with assms have "P \<le> length (drop addr img)" by simp
  with False show ?thesis by (simp add: pad_page_def m min_absorb2)
qed

text \<open>One round of the loop of \<^verbatim>\<open>micronucleus_paged_write\<close>.\<close>

lemma paged_write_loop_unfold:
  assumes "n_bytes \<noteq> 0"
    and "c = (if n_bytes < ucast (page_size pdata) then n_bytes else ucast (page_size pdata))"
  shows "paged_write_loop mem addr n_bytes result pdata w =
     (if unat addr + unat c > length (mem_buf mem) then Some (Inl OutOfBounds)
      else
        (case micronucleus_write_page pdata addr
                (take (unat c) (drop (unat addr) (mem_buf mem)) @
                 replicate (unat (page_size pdata) - unat c) 0xFF)
                (ucast (page_size pdata)) w of
           Inl f \<Rightarrow> Some (Inl f)
         | Inr (result1, pdata1, w1) \<Rightarrow>
             if result1 < 0 then Some (Inr (result1, pdata1, w1))
             else paged_write_loop mem (addr + c) (n_bytes - c) result1 pdata1 w1))"
proof -
  from assms(1) have pos: "0 < n_bytes"
    by (simp add: word_greater_zero_iff)
  show ?thesis
    unfolding assms(2)
    by (subst paged_write_loop.simps) (simp only: pos if_True Let_def)
qed

lemma paged_write_loop_round:
  assumes "n_bytes \<noteq> 0"
    and "c = (if n_bytes < ucast (page_size pdata) then n_bytes else ucast (page_size pdata))"
    and "paged_write_loop mem addr n_bytes result pdata w = Some (Inr (code, pd', w'))"
  shows "unat addr + unat c \<le> length (mem_buf mem) \<and>
     (\<exists>r1 pd1 w1.
        micronucleus_write_page pdata addr
          (take (unat c) (drop (unat addr) (mem_buf mem)) @
           replicate (unat (page_size pdata) - unat c) 0xFF)
          (ucast (page_size pdata)) w = Inr (r1, pd1, w1)
        \<and> (if r1 < 0 then code = r1 \<and> pd' = pd1 \<and> w' = w1
            else paged_write_loop mem (addr + c) (n_bytes - c) r1 pd1 w1
                   = Some (Inr (code, pd', w'))))"
  using assms(3) unfolding paged_write_loop_unfold [OF assms(1,2)]
  by (auto split: if_splits sum.splits prod.splits)

lemma unat_chunk_size:
  "unat (if n_bytes < ucast (ps :: u8) then n_bytes else (ucast ps :: u32))
     = min (unat n_bytes) (unat ps)"
  by (simp add: word_less_nat_alt unat_ucast_8_32 min_def)

lemma paged_write_loop_chunks:
  assumes "page_size pdata \<noteq> 0"
    and "unat addr + unat n_bytes < 2 ^ 32"
    and "paged_write_loop mem addr n_bytes result pdata w = Some (Inr (0, pd', w'))"
  shows "page_writes (trace w') = page_writes (trace w) @
     spec_chunks (mem_buf mem) (unat addr) (unat n_bytes) (unat (page_size pdata))"
  using assms
proof (induction "unat n_bytes" arbitrary: addr n_bytes result pdata w rule: less_induct)
  case less
  let ?P = "unat (page_size pdata)"
  from less.prems(1) have P: "0 < ?P"
    by (simp add: unat_gt_0)
  show ?case
  proof (cases "n_bytes = 0")
    case True
    with less.prems(3) have "w' = w"
      by (subst (asm) paged_write_loop.simps) simp
    with True P show ?thesis by simp
  next
    case False
    define c where
      "c = (if n_bytes < ucast (page_size pdata) then n_bytes else ucast (page_size pdata))"
    have uc: "unat c = min (unat n_bytes) ?P"
      unfolding c_def by (rule unat_chunk_size)
    from False have S: "0 < unat n_bytes"
      by (simp add: unat_gt_0)
    from paged_write_loop_round [OF False c_def less.prems(3)]
    obtain r1 pd1 w1 where
      inb: "unat addr + unat c \<le> length (mem_buf mem)"
      and wp: "micronucleus_write_page pdata addr
          (take (unat c) (drop (unat addr) (mem_buf mem)) @ replicate (?P - unat c) 0xFF)
          (ucast (page_size pdata)) w = Inr (r1, pd1, w1)"
      and nxt: "if r1 < 0 then 0 = r1 \<and> pd' = pd1 \<and> w' = w1
            else paged_write_loop mem (addr + c) (n_bytes - c) r1 pd1 w1
                   = Some (Inr (0, pd', w'))"
      by blast
    from nxt have rec: "paged_write_loop mem (addr + c) (n_bytes - c) r1 pd1 w1
                   = Some (Inr (0, pd', w'))"
      by (simp split: if_splits)
    have buf: "take (unat c) (drop (unat addr) (mem_buf mem)) @ replicate (?P - unat c) 0xFF
        = pad_page ?P (take (unat n_bytes) (drop (unat addr) (mem_buf mem)))"
      unfolding uc by (rule page_buffer_eq) (use inb uc in simp)
    from write_page_trace [OF wp] obtain evs where
      "w1 = w\<lparr>trace := trace w @ WritePage addr
          (take (unat c) (drop (unat addr) (mem_buf mem)) @ replicate (?P - unat c) 0xFF)
          (ucast (page_size pdata)) # evs\<rparr>" "page_writes evs = []"
      by blast
    then have t1: "page_writes (trace w1) = page_writes (trace w) @
        [(unat addr, pad_page ?P (take (unat n_bytes) (drop (unat addr) (mem_buf mem))), ?P)]"
      by (simp add: buf unat_ucast_8_32)
    have g: "page_size pd1 = page_size pdata"
      using write_page_geometry [OF wp] by (simp add: geometry_def)
    have cle: "c \<le> n_bytes"
      by (simp add: word_le_nat_alt uc)
    have un: "unat (n_bytes - c) = unat n_bytes - min (unat n_bytes) ?P"
      using unat_sub [OF cle] uc by simp
    have ua: "unat (addr + c) = unat addr + min (unat n_bytes) ?P"
      using less.prems(2) uc by (simp add: unat_add_lem [THEN iffD1])
    have smaller: "unat (n_bytes - c) < unat n_bytes"
      using un S P by simp
    have nowrap: "unat (addr + c) + unat (n_bytes - c) < 2 ^ 32"
      using un ua less.prems(2) by simp
    from less.hyps [OF smaller _ nowrap rec] less.prems(1) g
    have "page_writes (trace w') = page_writes (trace w1) @
        spec_chunks (mem_buf mem) (unat (addr + c)) (unat (n_bytes - c)) ?P"
      by simp
    then show ?thesis
      by (simp add: t1 un ua spec_chunks_step [OF S P])
  qed
qed

lemma paged_write_loop_returns:
  assumes "page_size pdata \<noteq> 0"
  shows "\<exists>y. paged_write_loop mem addr n_bytes result pdata w = Some y"
  using assms
proof (induction "unat n_bytes" arbitrary: addr n_bytes result pdata w rule: less_induct)
  case less
  let ?P = "unat (page_size pdata)"
  from less.prems have P: "0 < ?P"
    by (simp add: unat_gt_0)
  show ?case
  proof (cases "n_bytes = 0")
    case True
    then show ?thesis by (subst paged_write_loop.simps) simp
  next
    case False
    then have pos: "0 < n_bytes" by (simp add: word_greater_zero_iff)
    define c where
      "c = (if n_bytes < ucast (page_size pdata) then n_bytes else ucast (page_size pdata))"
    have uc: "unat c = min (unat n_bytes) ?P"
      unfolding c_def by (rule unat_chunk_size)
    from False have S: "0 < unat n_bytes"
      by (simp add: unat_gt_0)
    have cle: "c \<le> n_bytes"
      by (simp add: word_le_nat_alt uc)
    have smaller: "unat (n_bytes - c) < unat n_bytes"
      using unat_sub [OF cle] uc S P by simp
    let ?buf = "take (unat c) (drop (unat addr) (mem_buf mem)) @ replicate (?P - unat c) 0xFF"
    note unfold = paged_write_loop_unfold [OF False c_def, of mem addr result w]
    show ?thesis
    proof (cases "unat addr + unat c > length (mem_buf mem)")
      case True
      then show ?thesis unfolding unfold by simp
    next
      case inb: False
      show ?thesis
      proof (cases "micronucleus_write_page pdata addr ?buf (ucast (page_size pdata)) w")
        case (Inl f)
        with inb show ?thesis unfolding unfold by simp
      next
        case (Inr t)
        obtain r1 pd1 w1 where t: "t = (r1, pd1, w1)" by (cases t)
        have wp: "micronucleus_write_page pdata addr ?buf (ucast (page_size pdata)) w
            = Inr (r1, pd1, w1)"
          using Inr t by simp
        have g: "page_size pd1 \<noteq> 0"
          using write_page_geometry [OF wp] less.prems by (simp add: geometry_def)
        from less.hyps [OF smaller g]
        obtain y where "paged_write_loop mem (addr + c) (n_bytes - c) r1 pd1 w1 = Some y"
          by blast
        with inb wp show ?thesis unfolding unfold by simp
      qed
    qed
  qed
qed

subsection \<open>The session flags\<close>

lemma patch_reset_vector_cases:
  "micronucleus_patch_reset_vector pdata buffer = Inl OutOfBounds
   \<or> micronucleus_patch_reset_vector pdata buffer = Inr (-1, pdata, buffer)
   \<or> (\<exists>v b. micronucleus_patch_reset_vector pdata buffer
          = Inr (0, pdata\<lparr>user_reset_vector := v\<rparr>, b))"
  by (auto simp: micronucleus_patch_reset_vector_def split: option.splits)

lemma write_page_first_any:
  assumes "micronucleus_write_page pdata 0 buffer sz w = Inr (r1, pd1, w1)"
  shows "if major_version pdata \<ge> 2
            \<and> micronucleus_patch_reset_vector pdata buffer = Inr (-1, pdata, buffer)
         then r1 = -1 \<and> pd1 = pdata \<and> w1 = w\<lparr>trace := trace w @ [WritePage 0 buffer sz]\<rparr>
         else write_last_page pd1 \<and> start_program pd1"
proof (cases "major_version pdata \<ge> 2")
  case False
  with assms show ?thesis
    by (auto simp: micronucleus_write_page_def write_page_prepare_def Let_def
        split: sum.splits prod.splits if_splits)
next
  case True
  from patch_reset_vector_cases [of pdata buffer] show ?thesis
  proof (elim disjE exE)
    assume "micronucleus_patch_reset_vector pdata buffer = Inl OutOfBounds"
    with assms True show ?thesis
      by (simp add: micronucleus_write_page_def write_page_prepare_def Let_def)
  next
    assume "micronucleus_patch_reset_vector pdata buffer = Inr (-1, pdata, buffer)"
    with assms True show ?thesis
      by (simp add: micronucleus_write_page_def write_page_prepare_def Let_def)
  next
    fix v b
    assume p: "micronucleus_patch_reset_vector pdata buffer
          = Inr (0, pdata\<lparr>user_reset_vector := v\<rparr>, b)"
    with assms True have "write_last_page pd1 \<and> start_program pd1"
      by (auto simp: micronucleus_write_page_def write_page_prepare_def Let_def
          split: sum.splits prod.splits if_splits)
    with p show ?thesis by simp
  qed
qed

lemma write_page_last:
  assumes "last_page_address pdata \<noteq> 0"
    and "micronucleus_write_page pdata (last_page_address pdata) buffer sz w = Inr (r, pd2, w2)"
  shows "\<not> write_last_page pd2 \<and> start_program pd2 = start_program pdata
     \<and> user_reset_vector pd2 = user_reset_vector pdata
     \<and> usb_handle pd2 = usb_handle pdata"
  using assms
  by (auto simp: micronucleus_write_page_def write_page_prepare_def Let_def
      last_page_address_def
      split: sum.splits prod.splits if_splits)


lemma last_page_address_flags [simp]:
  "last_page_address (pdata\<lparr>write_last_page := x\<rparr>) = last_page_address pdata"
  "last_page_address (pdata\<lparr>start_program := y\<rparr>) = last_page_address pdata"
  by (simp_all add: last_page_address_def)

lemma start_trace:
  "micronucleus_start pdata w = Inr (r, w') \<Longrightarrow>
     \<exists>d. usb_handle pdata = Some d \<and> w' = w\<lparr>trace := trace w @ [Ctrl d start_request]\<rparr>"
  by (auto simp: micronucleus_start_def dest!: usb_control_msg_trace
      split: sum.splits prod.splits if_splits)

text \<open>What a page write at the last page hands to the V2 transmitter: the patched buffer.\<close>

lemma write_page_last_patched:
  assumes "last_page_address pdata \<noteq> 0" and "major_version pdata \<ge> 2"
    and "micronucleus_write_page pdata (last_page_address pdata) buffer sz w = Inr (r, pd2, w2)"
  shows "\<exists>patched rv wv. micronucleus_patch_user_vector pdata buffer = Inr patched
     \<and> micronucleus_write_page_v2 (pdata\<lparr>write_last_page := False\<rparr>)
          (last_page_address pdata) patched sz
          (w\<lparr>trace := trace w @ [WritePage (last_page_address pdata) buffer sz]\<rparr>)
         = Inr (rv, wv)"
  using assms
  by (auto simp: micronucleus_write_page_def write_page_prepare_def Let_def
      last_page_address_def
      split: sum.splits prod.splits if_splits)

subsection \<open>Erase and reconnect\<close>

lemma failed_opens_simps [simp]:
  "failed_opens d 0 = []"
  "failed_opens d (Suc k) =
     Open d False # Usleep (MICRONUCLEUS_CONNECT_WAIT * 1000) # failed_opens d k"
  "length (failed_opens d k) = 2 * k"
  by (simp_all add: failed_opens_def length_concat sum_list_replicate)

lemma session_handle_None: "usb_handle pdata = None \<Longrightarrow> pdata\<lparr>usb_handle := None\<rparr> = pdata"
  by (cases pdata) simp

lemma reconnect_loop_exhaust:
  assumes "i \<le> 25" and "usb_handle pdata = None"
    and "\<forall>j < 25 - i. \<not> usb_open_ok w (trace w @ failed_opens d j) d"
  shows "reconnect_loop i d pdata w
           = (-1, pdata, w\<lparr>trace := trace w @ failed_opens d (25 - i)\<rparr>)"
  using assms
proof (induction "25 - i" arbitrary: i w)
  case 0
  then have "i = 25" by simp
  then show ?case by (subst reconnect_loop.simps) simp
next
  case (Suc n)
  then have lt: "i < 25" and n: "n = 25 - (i + 1)" and s: "25 - i = Suc n"
    by simp_all
  from Suc.prems(3) s have f0: "\<not> usb_open_ok w (trace w) d"
    by (metis append_Nil2 failed_opens_simps(1) zero_less_Suc)
  let ?w2 = "delay_ms MICRONUCLEUS_CONNECT_WAIT (w\<lparr>trace := trace w @ [Open d False]\<rparr>)"
  have t2: "trace ?w2 = trace w @ [Open d False, Usleep (MICRONUCLEUS_CONNECT_WAIT * 1000)]"
    and o2: "usb_open_ok ?w2 = usb_open_ok w"
    by (simp_all add: delay_ms_def)
  have rest: "\<forall>j < 25 - (i + 1). \<not> usb_open_ok ?w2 (trace ?w2 @ failed_opens d j) d"
  proof (intro allI impI)
    fix j assume "j < 25 - (i + 1)"
    then have "Suc j < 25 - i" by simp
    with Suc.prems(3) have "\<not> usb_open_ok w (trace w @ failed_opens d (Suc j)) d"
      by blast
    then show "\<not> usb_open_ok ?w2 (trace ?w2 @ failed_opens d j) d"
      by (simp add: t2 o2)
  qed
  from lt have le: "i + 1 \<le> 25" by simp
  have "reconnect_loop (i + 1) d pdata ?w2
          = (-1, pdata, ?w2\<lparr>trace := trace ?w2 @ failed_opens d (25 - (i + 1))\<rparr>)"
    by (rule Suc.hyps(1) [OF n le Suc.prems(2) rest])
  moreover have "reconnect_loop i d pdata w = reconnect_loop (i + 1) d pdata ?w2"
    using lt f0 Suc.prems(2)
    by (subst reconnect_loop.simps) (simp add: usb_open_def session_handle_None)
  ultimately show ?case
    using s n by (simp add: delay_ms_def)
qed

lemma reconnect_loop_success:
  assumes "i + k < 25"
    and "\<forall>j < k. \<not> usb_open_ok w (trace w @ failed_opens d j) d"
    and "usb_open_ok w (trace w @ failed_opens d k) d"
  shows "reconnect_loop i d pdata w
           = (0, pdata\<lparr>usb_handle := Some d\<rparr>,
              w\<lparr>trace := trace w @ failed_opens d k @ [Open d True]\<rparr>)"
  using assms
proof (induction k arbitrary: i w pdata)
  case 0
  then show ?case
    by (subst reconnect_loop.simps) (simp add: usb_open_def)
next
  case (Suc k)
  from Suc.prems(2) have f0: "\<not> usb_open_ok w (trace w) d"
    by (metis append_Nil2 failed_opens_simps(1) zero_less_Suc)
  let ?w2 = "delay_ms MICRONUCLEUS_CONNECT_WAIT (w\<lparr>trace := trace w @ [Open d False]\<rparr>)"
  have t2: "trace ?w2 = trace w @ [Open d False, Usleep (MICRONUCLEUS_CONNECT_WAIT * 1000)]"
    and o2: "usb_open_ok ?w2 = usb_open_ok w"
    by (simp_all add: delay_ms_def)
  have a: "(i + 1) + k < 25" using Suc.prems(1) by simp
  have b: "\<forall>j < k. \<not> usb_open_ok ?w2 (trace ?w2 @ failed_opens d j) d"
  proof (intro allI impI)
    fix j assume "j < k"
    then have "Suc j < Suc k" by simp
    with Suc.prems(2) have "\<not> usb_open_ok w (trace w @ failed_opens d (Suc j)) d"
      by blast
    then show "\<not> usb_open_ok ?w2 (trace ?w2 @ failed_opens d j) d"
      by (simp add: t2 o2)
  qed
  have c: "usb_open_ok ?w2 (trace ?w2 @ failed_opens d k) d"
    using Suc.prems(3) by (simp add: t2 o2)
  have "reconnect_loop (i + 1) d (pdata\<lparr>usb_handle := None\<rparr>) ?w2
          = (0, pdata\<lparr>usb_handle := None\<rparr>\<lparr>usb_handle := Some d\<rparr>,
             ?w2\<lparr>trace := trace ?w2 @ failed_opens d k @ [Open d True]\<rparr>)"
    by (rule Suc.IH [OF a b c])
  moreover have "reconnect_loop i d pdata w
      = reconnect_loop (i + 1) d (pdata\<lparr>usb_handle := None\<rparr>) ?w2"
    using Suc.prems(1) f0
    by (subst reconnect_loop.simps) (simp add: usb_open_def)
  ultimately show ?case
    by (simp add: delay_ms_def)
qed

text \<open>The connection check, for an open session, by the answer of the device.\<close>

lemma check_connection_result:
  assumes "usb_handle pdata = Some d"
    and "usb_reply w (trace w) (check_request pdata) = (rc, bytes)"
  shows "micronucleus_check_connection pdata w
           = Inr (if rc = check_size pdata then 0 else -1,
                  w\<lparr>trace := trace w @ [Ctrl d (check_request pdata)],
                    usb_access_error := (rc < 0 \<or> usb_access_error w)\<rparr>)"
  using assms
  by (auto simp: micronucleus_check_connection_def usb_control_msg_def check_request_def
      check_size_def)

lemma reconnect_result:
  assumes "usb_handle pdata = Some d"
  shows "micronucleus_reconnect pdata w
           = Inr (reconnect_loop 0 d (pdata\<lparr>usb_handle := None\<rparr>)
                    (w\<lparr>trace := trace w @ [Close d]\<rparr>))"
  using assms by (simp add: micronucleus_reconnect_def usb_close_def)

subsection \<open>Discovery\<close>

lemma is_device_responsive_session:
  "micronucleus_is_device_responsive pdata device w = Inr (b, pd', w') \<Longrightarrow>
     pd' = pdata\<lparr>usb_handle := None\<rparr>"
  by (auto simp: micronucleus_is_device_responsive_def split: prod.splits sum.splits if_splits)

text \<open>One round of the inner loop either stops or goes on with the rest of the list.\<close>

lemma scan_devices_step:
  assumes "scan_devices port bus_name dev_name vid pid bus (device # rest) pdata w = Inr (pd', w')"
  shows "(usb_handle pdata \<noteq> None \<and> pd' = pdata \<and> w' = w) \<or>
         (usb_handle pdata = None \<and>
          (\<exists>pd1 w1. scan_devices port bus_name dev_name vid pid bus rest pd1 w1 = Inr (pd', w') \<and>
             geometry pd1 = geometry pdata \<and> usb_busses w1 = usb_busses w \<and>
             (usb_handle pd1 = None \<or>
              usb_handle pd1 = Some device \<and> \<not> locator_rejects port bus_name dev_name bus device)))"
proof (cases "usb_handle pdata \<noteq> None")
  case True
  with assms show ?thesis by simp
next
  case no_handle: False
  show ?thesis
  proof (cases "uint (idVendor device) = vid \<and> uint (idProduct device) = pid")
    case False
    with assms no_handle
    have "scan_devices port bus_name dev_name vid pid bus rest pdata w = Inr (pd', w')"
      by auto
    with no_handle show ?thesis
      by (rule_tac disjI2, intro conjI exI [of _ pdata] exI [of _ w]) simp_all
  next
    case ids: True
    define pdata1 where "pdata1 = pdata\<lparr>major_version := ucast (drop_bit 8 (bcdDevice device)),
                       minor_version := ucast (bcdDevice device)\<rparr>"
    show ?thesis
    proof (cases "micronucleus_is_device_responsive pdata1 device w")
      case (Inl f)
      with assms no_handle ids show ?thesis by (simp add: pdata1_def)
    next
      case (Inr t)
      then obtain responsive pdata2 w2 where
        t: "micronucleus_is_device_responsive pdata1 device w = Inr (responsive, pdata2, w2)"
        by (cases t) auto
      have p2: "pdata2 = pdata1\<lparr>usb_handle := None\<rparr>"
        using is_device_responsive_session [OF t] .
      have b2: "usb_busses w2 = usb_busses w"
        using t by (auto simp: micronucleus_is_device_responsive_def usb_open_def
            micronucleus_check_connection_def usb_control_msg_def usb_close_def
            split: prod.splits sum.splits if_splits option.splits)
      have g2: "geometry pdata2 = geometry pdata"
        by (simp add: p2 pdata1_def)
      obtain h w3 where o: "usb_open device w2 = (h, w3)"
        by (cases "usb_open device w2")
      have h: "h = None \<or> h = Some device" and b3: "usb_busses w3 = usb_busses w2"
        using o by (auto simp: usb_open_def split: if_splits)
      from assms no_handle ids t o
      consider "scan_devices port bus_name dev_name vid pid bus rest pdata2 w2 = Inr (pd', w')"
        | "\<not> locator_rejects port bus_name dev_name bus device"
          "scan_devices port bus_name dev_name vid pid bus rest (pdata2\<lparr>usb_handle := h\<rparr>) w3
             = Inr (pd', w')"
        by (simp add: pdata1_def split: if_splits)
      then show ?thesis
      proof cases
        case 1
        have "usb_handle pdata2 = None" by (simp add: p2)
        with 1 no_handle g2 b2 show ?thesis
          by (rule_tac disjI2, intro conjI exI [of _ pdata2] exI [of _ w2]) simp_all
      next
        case 2
        have "geometry (pdata2\<lparr>usb_handle := h\<rparr>) = geometry pdata"
          "usb_busses w3 = usb_busses w"
          "usb_handle (pdata2\<lparr>usb_handle := h\<rparr>) = None \<or>
           usb_handle (pdata2\<lparr>usb_handle := h\<rparr>) = Some device"
          using g2 b2 b3 h by simp_all
        with 2 no_handle show ?thesis
          by (rule_tac disjI2, intro conjI exI [of _ "pdata2\<lparr>usb_handle := h\<rparr>"] exI [of _ w3])
            simp_all
      qed
    qed
  qed
qed

lemma scan_devices_geometry:
  "scan_devices port bus_name dev_name vid pid bus devs pdata w = Inr (pd', w') \<Longrightarrow>
     geometry pd' = geometry pdata"
proof (induction devs arbitrary: pdata w)
  case Nil
  then show ?case by simp
next
  case (Cons device rest)
  from scan_devices_step [OF Cons.prems] show ?case
    using Cons.IH by fastforce
qed

lemma scan_busses_geometry:
  "scan_busses port bus_name dev_name vid pid bs pdata w = Inr (pd', w') \<Longrightarrow>
     geometry pd' = geometry pdata"
proof (induction bs arbitrary: pdata w)
  case Nil
  then show ?case by simp
next
  case (Cons bus rest)
  show ?case
  proof (cases "usb_handle pdata \<noteq> None")
    case True
    with Cons.prems show ?thesis by simp
  next
    case False
    with Cons.prems obtain pd1 w1 where
      a: "scan_devices port bus_name dev_name vid pid bus (devices bus) pdata w = Inr (pd1, w1)"
      and b: "scan_busses port bus_name dev_name vid pid rest pd1 w1 = Inr (pd', w')"
      by (auto split: sum.splits)
    show ?thesis
      using Cons.IH [OF b] scan_devices_geometry [OF a] by simp
  qed
qed

lemma open_loop_geometry_aux:
  assumes "open_loop port bus_name dev_name vid pid start_time pdata w = Some y"
  shows "\<forall>pd' w'. y = Inr (pd', w') \<longrightarrow> geometry pd' = geometry pdata"
  using assms
proof (induct rule: open_loop.raw_induct [rotated 1, consumes 1, case_names step])
  case (step loop port bus_name dev_name vid pid start_time pdata w y)
  show ?case
  proof (cases "scan_busses port bus_name dev_name vid pid (usb_busses w (trace w))
             (pdata\<lparr>usb_handle := None\<rparr>) w")
    case (Inl f)
    from step(2) show ?thesis unfolding Inl by auto
  next
    case (Inr t)
    obtain pdata1 w1 where t: "t = (pdata1, w1)"
      by (cases t)
    have sb: "scan_busses port bus_name dev_name vid pid (usb_busses w (trace w))
             (pdata\<lparr>usb_handle := None\<rparr>) w = Inr (pdata1, w1)"
      using Inr t by simp
    have g1: "geometry pdata1 = geometry pdata"
      using scan_busses_geometry [OF sb] by simp
    have "(if usb_handle pdata1 = None \<and> wait_until_device_present pdata1 \<and>
           (wait_timout pdata1 < 0 \<or> clock w1 (trace w1) - start_time < wait_timout pdata1)
        then loop port bus_name dev_name vid pid start_time pdata1
              (delay_ms MICRONUCLEUS_CONNECT_WAIT w1)
        else Some (Inr (pdata1, w1))) = Some y"
      using step(2) unfolding sb by simp
    then consider "y = Inr (pdata1, w1)"
      | "loop port bus_name dev_name vid pid start_time pdata1
           (delay_ms MICRONUCLEUS_CONNECT_WAIT w1) = Some y"
      by (cases "usb_handle pdata1 = None \<and> wait_until_device_present pdata1 \<and>
           (wait_timout pdata1 < 0 \<or> clock w1 (trace w1) - start_time < wait_timout pdata1)")
        auto
    then show ?thesis
    proof cases
      case 1
      with g1 show ?thesis by simp
    next
      case 2
      from step(1) [OF 2] g1 show ?thesis by simp
    qed
  qed
qed

lemma open_geometry:
  assumes "micronucleus_open usbvid usbpid pdata port w = Some (Inr (r, pd', w'))"
  shows "geometry pd' = geometry pdata"
proof -
  obtain port1 bus_name dev_name where pp: "parse_port port = (port1, bus_name, dev_name)"
    by (cases "parse_port port")
  show ?thesis
  proof (cases "port1 \<noteq> None \<and> dev_name = None")
    case True
    with assms pp show ?thesis by (simp add: micronucleus_open_def)
  next
    case False
    with assms pp obtain w1 where
      "open_loop port1 bus_name dev_name (if usbvid \<noteq> 0 then usbvid else MICRONUCLEUS_VID)
         (case usbpid of [] \<Rightarrow> MICRONUCLEUS_PID | p # ps \<Rightarrow> p) (clock w (trace w)) pdata w
       = Some (Inr (pd', w1))"
      by (auto simp: micronucleus_open_def split: option.splits sum.splits if_splits)
    from open_loop_geometry_aux [OF this] show ?thesis by simp
  qed
qed

lemma close_geometry: "geometry (fst (micronucleus_close pdata w)) = geometry pdata"
  by (simp add: micronucleus_close_def split: option.splits)

subsection \<open>The locator filter\<close>

lemma parse_port_example:
  "parse_port ''usb:001:004'' = (Some ''usb:001:004'', Some ''001'', Some ''004'')"
  by (simp add: parse_port_def str_eq_def str_starts_def)

lemma locator_rejects_iff:
  "locator_rejects (Some p) (Some bn) (Some dn) bus device
     \<longleftrightarrow> dirname bus \<noteq> bn \<or> filename device \<noteq> dn"
  by (simp add: locator_rejects_def str_eq_def)

lemma is_device_responsive_result:
  assumes "usb_open_ok w (trace w) device"
    and "usb_reply w (trace w @ [Open device True]) (check_request pdata) = (rc, bytes)"
  shows "micronucleus_is_device_responsive pdata device w
     = Inr (rc = check_size pdata, pdata\<lparr>usb_handle := None\<rparr>,
            w\<lparr>trace := trace w @ [Open device True, Ctrl device (check_request pdata),
                                   Close device],
              usb_access_error := (rc < 0 \<or> usb_access_error w)\<rparr>)"
proof -
  let ?w1 = "w\<lparr>trace := trace w @ [Open device True]\<rparr>"
  have o: "usb_open device w = (Some device, ?w1)"
    using assms(1) by (simp add: usb_open_def)
  have c: "micronucleus_check_connection (pdata\<lparr>usb_handle := Some device\<rparr>) ?w1
      = Inr (if rc = check_size pdata then 0 else -1,
             ?w1\<lparr>trace := trace ?w1 @ [Ctrl device (check_request pdata)],
                 usb_access_error := (rc < 0 \<or> usb_access_error ?w1)\<rparr>)"
    using check_connection_result [of "pdata\<lparr>usb_handle := Some device\<rparr>" device ?w1 rc bytes]
      assms(2)
    by (simp add: check_request_def check_size_def)
  show ?thesis
    by (simp add: micronucleus_is_device_responsive_def o c usb_close_def)
qed

lemma scan_devices_retained:
  "scan_devices port bus_name dev_name vid pid bus devs pdata w = Inr (pd', w') \<Longrightarrow>
     usb_busses w' = usb_busses w \<and>
     (usb_handle pd' = usb_handle pdata \<or>
      (\<exists>dev \<in> set devs. usb_handle pd' = Some dev
          \<and> \<not> locator_rejects port bus_name dev_name bus dev))"
proof (induction devs arbitrary: pdata w)
  case Nil
  then show ?case by simp
next
  case (Cons device rest)
  from scan_devices_step [OF Cons.prems]
  consider "pd' = pdata" "w' = w"
    | pd1 w1 where "usb_handle pdata = None"
      "scan_devices port bus_name dev_name vid pid bus rest pd1 w1 = Inr (pd', w')"
      "usb_busses w1 = usb_busses w"
      "usb_handle pd1 = None \<or>
         usb_handle pd1 = Some device \<and> \<not> locator_rejects port bus_name dev_name bus device"
    by blast
  then show ?case
  proof cases
    case 1
    then show ?thesis by simp
  next
    case 2
    from Cons.IH [OF 2(2)] 2(1,3,4) show ?thesis by auto
  qed
qed

lemma scan_busses_retained:
  "scan_busses port bus_name dev_name vid pid bs pdata w = Inr (pd', w') \<Longrightarrow>
     usb_busses w' = usb_busses w \<and>
     (usb_handle pd' = usb_handle pdata \<or>
      (\<exists>bus \<in> set bs. \<exists>dev \<in> set (devices bus). usb_handle pd' = Some dev
          \<and> \<not> locator_rejects port bus_name dev_name bus dev))"
proof (induction bs arbitrary: pdata w)
  case Nil
  then show ?case by simp
next
  case (Cons bus rest)
  show ?case
  proof (cases "usb_handle pdata \<noteq> None")
    case True
    with Cons.prems show ?thesis by simp
  next
    case False
    with Cons.prems obtain pd1 w1 where
      a: "scan_devices port bus_name dev_name vid pid bus (devices bus) pdata w = Inr (pd1, w1)"
      and b: "scan_busses port bus_name dev_name vid pid rest pd1 w1 = Inr (pd', w')"
      by (auto split: sum.splits)
    from scan_devices_retained [OF a] Cons.IH [OF b] show ?thesis by auto
  qed
qed

lemma open_loop_retained_aux:
  assumes "open_loop port bus_name dev_name vid pid start_time pdata w = Some y"
  shows "\<forall>pd' w'. y = Inr (pd', w') \<longrightarrow>
     usb_busses w' = usb_busses w \<and>
     (usb_handle pd' = None \<or>
      (\<exists>h. \<exists>bus \<in> set (usb_busses w h). \<exists>dev \<in> set (devices bus). usb_handle pd' = Some dev
          \<and> \<not> locator_rejects port bus_name dev_name bus dev))"
  using assms
proof (induct rule: open_loop.raw_induct [rotated 1, consumes 1, case_names step])
  case (step loop port bus_name dev_name vid pid start_time pdata w y)
  show ?case
  proof (cases "scan_busses port bus_name dev_name vid pid (usb_busses w (trace w))
             (pdata\<lparr>usb_handle := None\<rparr>) w")
    case (Inl f)
    from step(2) show ?thesis unfolding Inl by auto
  next
    case (Inr t)
    obtain pdata1 w1 where t: "t = (pdata1, w1)"
      by (cases t)
    have sb: "scan_busses port bus_name dev_name vid pid (usb_busses w (trace w))
             (pdata\<lparr>usb_handle := None\<rparr>) w = Inr (pdata1, w1)"
      using Inr t by simp
    from scan_busses_retained [OF sb]
    have b1: "usb_busses w1 = usb_busses w"
      and h1: "usb_handle pdata1 = None \<or>
        (\<exists>h. \<exists>bus \<in> set (usb_busses w h). \<exists>dev \<in> set (devices bus).
            usb_handle pdata1 = Some dev \<and> \<not> locator_rejects port bus_name dev_name bus dev)"
      by auto
    have "(if usb_handle pdata1 = None \<and> wait_until_device_present pdata1 \<and>
           (wait_timout pdata1 < 0 \<or> clock w1 (trace w1) - start_time < wait_timout pdata1)
        then loop port bus_name dev_name vid pid start_time pdata1
              (delay_ms MICRONUCLEUS_CONNECT_WAIT w1)
        else Some (Inr (pdata1, w1))) = Some y"
      using step(2) unfolding sb by simp
    then consider "y = Inr (pdata1, w1)"
      | "loop port bus_name dev_name vid pid start_time pdata1
           (delay_ms MICRONUCLEUS_CONNECT_WAIT w1) = Some y"
      by (cases "usb_handle pdata1 = None \<and> wait_until_device_present pdata1 \<and>
           (wait_timout pdata1 < 0 \<or> clock w1 (trace w1) - start_time < wait_timout pdata1)")
        auto
    then show ?thesis
    proof cases
      case 1
      with b1 h1 show ?thesis by simp
    next
      case 2
      have "usb_busses (delay_ms MICRONUCLEUS_CONNECT_WAIT w1) = usb_busses w"
        using b1 by (simp add: delay_ms_def)
      with step(1) [OF 2] show ?thesis by simp
    qed
  qed
qed

lemma open_retained:
  assumes "micronucleus_open usbvid usbpid pdata port w = Some (Inr (r, pd', w'))"
    and "parse_port port = (Some p, Some bn, Some dn)"
    and "usb_handle pd' = Some dev"
  shows "filename dev = dn \<and>
     (\<exists>h. \<exists>bus \<in> set (usb_busses w h). dirname bus = bn \<and> dev \<in> set (devices bus))"
proof -
  from assms(1,2) obtain w1 where
    "open_loop (Some p) (Some bn) (Some dn) (if usbvid \<noteq> 0 then usbvid else MICRONUCLEUS_VID)
         (case usbpid of [] \<Rightarrow> MICRONUCLEUS_PID | p # ps \<Rightarrow> p) (clock w (trace w)) pdata w
       = Some (Inr (pd', w1))"
    by (auto simp: micronucleus_open_def split: option.splits sum.splits if_splits)
  from open_loop_retained_aux [OF this] assms(3)
  obtain h bus where "bus \<in> set (usb_busses w h)" "dev \<in> set (devices bus)"
    "\<not> locator_rejects (Some p) (Some bn) (Some dn) bus dev"
    by auto
  then show ?thesis
    by (auto simp: locator_rejects_iff)
qed

lemma scan_devices_reject:
  assumes "usb_handle pdata = None"
    and "uint (idVendor device) = vid \<and> uint (idProduct device) = pid"
    and "usb_open_ok w (trace w) device"
    and "usb_reply w (trace w @ [Open device True]) (check_request (probed pdata device))
           = (check_size (probed pdata device), bytes)"
    and "dirname bus \<noteq> bn \<or> filename device \<noteq> dn"
  shows "scan_devices (Some p) (Some bn) (Some dn) vid pid bus (device # rest) pdata w
     = scan_devices (Some p) (Some bn) (Some dn) vid pid bus rest
         ((probed pdata device)\<lparr>usb_handle := None\<rparr>)
         (w\<lparr>trace := trace w @ [Open device True,
              Ctrl device (check_request (probed pdata device)), Close device]\<rparr>)"
proof -
  have nn: "\<not> check_size (probed pdata device) < 0"
    by (simp add: check_size_def)
  have "micronucleus_is_device_responsive (probed pdata device) device w
     = Inr (True, (probed pdata device)\<lparr>usb_handle := None\<rparr>,
            w\<lparr>trace := trace w @ [Open device True,
                 Ctrl device (check_request (probed pdata device)), Close device]\<rparr>)"
    using is_device_responsive_result [OF assms(3,4)] nn by simp
  moreover have "locator_rejects (Some p) (Some bn) (Some dn) bus device"
    using assms(5) by (simp add: locator_rejects_iff)
  ultimately show ?thesis
    using assms(1,2) by (simp add: probed_def)
qed

subsection \<open>The positions of the scan\<close>

lemma scan_devices_held:
  "usb_handle pdata \<noteq> None \<Longrightarrow>
     scan_devices port bus_name dev_name vid pid bus devs pdata w = Inr (pdata, w)"
  by (cases devs) simp_all

lemma scan_busses_held:
  "usb_handle pdata \<noteq> None \<Longrightarrow>
     scan_busses port bus_name dev_name vid pid busses pdata w = Inr (pdata, w)"
  by (cases busses) simp_all

lemma scan_busses_rest:
  "scan_busses port bus_name dev_name vid pid (bus # busses) pdata w
     = scan_rest port bus_name dev_name vid pid bus (devices bus) busses pdata w"
proof (cases "usb_handle pdata = None")
  case True
  then show ?thesis by (simp add: scan_rest_def)
next
  case False
  then show ?thesis
    by (simp add: scan_rest_def scan_devices_held scan_busses_held del: scan_busses.simps)
qed

lemma scan_rest_next:
  "scan_rest port bus_name dev_name vid pid bus [] busses pdata w
     = scan_busses port bus_name dev_name vid pid busses pdata w"
  by (simp add: scan_rest_def)

lemma open_from_scan:
  assumes "parse_port port = (Some p, Some bn, Some dn)"
    and "scan_busses (Some p) (Some bn) (Some dn)
           (if usbvid \<noteq> 0 then usbvid else MICRONUCLEUS_VID)
           (case usbpid of [] \<Rightarrow> MICRONUCLEUS_PID | q # qs \<Rightarrow> q)
           (usb_busses w (trace w)) (pdata\<lparr>usb_handle := None\<rparr>) w = Inr (pd1, w1)"
    and "usb_handle pd1 \<noteq> None \<or> \<not> wait_until_device_present pd1"
  shows "micronucleus_open usbvid usbpid pdata port w
     = Some (Inr (if usb_handle pd1 = None then -1 else 0, pd1, w1))"
proof -
  have "open_loop (Some p) (Some bn) (Some dn)
           (if usbvid \<noteq> 0 then usbvid else MICRONUCLEUS_VID)
           (case usbpid of [] \<Rightarrow> MICRONUCLEUS_PID | q # qs \<Rightarrow> q)
           (clock w (trace w)) pdata w = Some (Inr (pd1, w1))"
    using assms(3) by (subst open_loop.simps) (auto simp: assms(2))
  then show ?thesis
    by (simp add: micronucleus_open_def assms(1))
qed

subsection \<open>The vector patches\<close>























subsection \<open>The decoded geometry\<close>

lemma decoded_geometry:
  assumes ps: "page_size pd' \<noteq> 0"
    and pg: "pages pd' = word_of_int
       ((uint (flash_size pd') + uint (page_size pd') - 1) div uint (page_size pd'))"
    and bs: "bootloader_start pd' = word_of_int (uint (pages pd') * uint (page_size pd'))"
  shows "uint (flash_size pd') \<le> uint (pages pd') * uint (page_size pd')"
    and "uint (pages pd') * uint (page_size pd') < uint (flash_size pd') + uint (page_size pd')"
    and "uint (bootloader_start pd') = (uint (pages pd') * uint (page_size pd')) mod 65536"
proof -
  have P: "0 < uint (page_size pd')"
    using ps by (simp add: uint_0_iff order_less_le)
  have pgs: "uint (pages pd') =
      (uint (flash_size pd') + uint (page_size pd') - 1) div uint (page_size pd')"
    by (subst pg) (rule uint_ceil_pages [OF ps])
  show "uint (flash_size pd') \<le> uint (pages pd') * uint (page_size pd')"
    unfolding pgs by (rule ceil_div_bounds(3)) (use P in simp_all)
  show "uint (pages pd') * uint (page_size pd') < uint (flash_size pd') + uint (page_size pd')"
    unfolding pgs by (rule ceil_div_bounds(4)) (use P in simp_all)
  show "uint (bootloader_start pd') = (uint (pages pd') * uint (page_size pd')) mod 65536"
    by (subst bs) (rule uint_u16_of_int)
qed

subsection \<open>Concrete runs\<close>

lemma ex_info:
  "\<exists>pd' w'. micronucleus_get_bootloader_info_v1 (example_pdata 1)
       (example_world (4, [0x10, 0x00, 0x40, 0x02])) = Inr (0, pd', w')
     \<and> uint (pages pd') * uint (page_size pd') < 65536"
  by (simp add: micronucleus_get_bootloader_info_v1_def usb_control_msg_def info_request_def
      guess_signature_def calculated_info_def example_pdata_def example_world_def Let_def)

lemma ex_write_page:
  "\<exists>r s w'. micronucleus_write_page (example_session 1) 64 (replicate 64 0) 64
      (example_world (0, [])) = Inr (r, s, w')"
  by (simp add: micronucleus_write_page_def write_page_prepare_def micronucleus_write_page_v1_def
      usb_control_msg_def example_session_def example_pdata_def example_world_def Let_def
      word_le_nat_alt word_less_nat_alt)

lemma ex_paged_write:
  "\<exists>r s w'. micronucleus_paged_write (example_session 1) example_mem 64 64 64
      (example_world (0, [])) = Some (Inr (r, s, w'))"
  apply (simp add: micronucleus_paged_write_def example_session_def example_pdata_def)
  apply (subst paged_write_loop.simps)
  apply (simp add: micronucleus_write_page_def write_page_prepare_def micronucleus_write_page_v1_def
      usb_control_msg_def example_mem_def example_world_def Let_def delay_ms_def
      word_le_nat_alt word_less_nat_alt)
  apply (subst paged_write_loop.simps)
  apply simp
  done

lemma ex_chip_erase:
  "\<exists>r s w'. micronucleus_chip_erase 5 32 (example_session 1) (example_world (0, []))
      = Inr (r, s, w')"
  by (simp add: micronucleus_chip_erase_def micronucleus_erase_device_def usb_control_msg_def
      micronucleus_check_connection_def micronucleus_reconnect_def usb_close_def
      reconnect_loop.simps usb_open_def delay_ms_def
      example_session_def example_pdata_def example_world_def Let_def
      word_le_nat_alt word_less_nat_alt)

lemma ex_powerdown:
  "\<exists>s w'. micronucleus_powerdown ((example_session 1)\<lparr>write_last_page := True,
        start_program := True\<rparr>) (example_world (0, [])) = Inr (s, w')"
  by (simp add: micronucleus_powerdown_def micronucleus_start_def
      micronucleus_write_page_def write_page_prepare_def micronucleus_write_page_v1_def
      usb_control_msg_def delay_ms_def
      example_session_def example_pdata_def example_world_def Let_def
      word_le_nat_alt word_less_nat_alt)

lemma ex_open:
  "\<exists>r s w'. micronucleus_open 0 [] (example_session 1) ''usb'' (example_world (0, []))
      = Some (Inr (r, s, w'))"
  apply (simp add: micronucleus_open_def parse_port_def str_eq_def)
  apply (subst open_loop.simps)
  apply (simp add: example_session_def example_pdata_def example_world_def)
  done

lemma ex_write_first_failed:
  "\<exists>w1. micronucleus_write_page (example_session 1) 0 (replicate 64 0) 64
       (example_world (-5, []))
     = Inr (-5, (example_session 1)\<lparr>write_last_page := True, start_program := True\<rparr>, w1)"
  by (simp add: micronucleus_write_page_def write_page_prepare_def micronucleus_write_page_v1_def
      usb_control_msg_def delay_ms_def example_session_def example_pdata_def example_world_def
      Let_def word_le_nat_alt word_less_nat_alt)

lemma ex_write_first_no_branch:
  "micronucleus_patch_reset_vector (example_session 2) (replicate 64 0)
     = Inr (-1, example_session 2, replicate 64 0)
   \<and> micronucleus_write_page (example_session 2) 0 (replicate 64 0) 64 (example_world (0, []))
     = Inr (-1, example_session 2,
          (example_world (0, []))\<lparr>trace := [WritePage 0 (replicate 64 0) 64]\<rparr>)"
  by (simp add: micronucleus_write_page_def write_page_prepare_def
      micronucleus_patch_reset_vector_def reset_vector_of_def word_of_bytes_def
      example_session_def example_pdata_def example_world_def
      Let_def word_le_nat_alt word_less_nat_alt)

lemma ex_write_last:
  "last_page_address (example_session 1) = 4032 \<and>
   (\<exists>r pd2 w2. micronucleus_write_page
      ((example_session 1)\<lparr>write_last_page := True, start_program := True\<rparr>)
      4032 (replicate 64 0) 64 (example_world (0, [])) = Inr (r, pd2, w2))"
  by (simp add: micronucleus_write_page_def write_page_prepare_def micronucleus_write_page_v1_def
      usb_control_msg_def delay_ms_def example_session_def example_pdata_def example_world_def
      last_page_address_def Let_def word_le_nat_alt word_less_nat_alt)

lemma ex_powerdown_v2:
  "last_page_address small_v2_session = 24 \<and>
   (\<exists>pd3 w3. micronucleus_powerdown small_v2_session (example_world (0, [])) = Inr (pd3, w3))"
  by (simp add: micronucleus_powerdown_def micronucleus_start_def
      micronucleus_write_page_def write_page_prepare_def micronucleus_write_page_v2_def
      micronucleus_patch_user_vector_def write_page_v2_loop.simps
      usb_control_msg_def delay_ms_def small_v2_session_def example_pdata_def example_world_def
      last_page_address_def Let_def word_le_nat_alt word_less_nat_alt)

lemma erase_world_facts:
  "trace (erase_world r rc n) = []"
  "usb_reply (erase_world r rc n) t erase_request = (r, [])"
  "usb_reply (erase_world r rc n) t (check_request pdata) = (rc, [])"
  "usb_open_ok (erase_world r rc n) t d = (n \<le> length t)"
  by (simp_all add: erase_world_def erase_request_def check_request_def info_request_def
      MICRONUCLEUS_CMD_ERASE_def MICRONUCLEUS_CMD_INFO_def)

lemma ex_discovery:
  "\<exists>w'. micronucleus_open 0 [] (example_pdata 1) ''usb:001:004'' discovery_world
     = Some (Inr (0, (example_pdata 1)\<lparr>usb_handle := Some example_device,
                       major_version := 1, minor_version := 2\<rparr>, w'))"
  apply (simp add: micronucleus_open_def parse_port_example)
  apply (subst open_loop.simps)
  apply (simp add: discovery_world_def device_005_def example_device_def example_pdata_def
      MICRONUCLEUS_VID_def MICRONUCLEUS_PID_def MICRONUCLEUS_MAX_MAJOR_VERSION_def
      micronucleus_is_device_responsive_def micronucleus_check_connection_def
      usb_open_def usb_close_def usb_control_msg_def info_request_def
      locator_rejects_def str_eq_def word_le_nat_alt word_less_nat_alt)
  done

lemma ex_paged_write_two:
  "\<exists>pd' w'. micronucleus_paged_write (example_session 1) example_mem 128 64 100
      (example_world (0, [])) = Some (Inr (0, pd', w'))"
  apply (simp add: micronucleus_paged_write_def example_session_def example_pdata_def)
  apply (subst paged_write_loop.simps)
  apply (simp add: micronucleus_write_page_def write_page_prepare_def micronucleus_write_page_v1_def
      usb_control_msg_def example_mem_def example_world_def Let_def delay_ms_def
      word_le_nat_alt word_less_nat_alt)
  apply (subst paged_write_loop.simps)
  apply (simp add: micronucleus_write_page_def write_page_prepare_def micronucleus_write_page_v1_def
      usb_control_msg_def example_mem_def example_world_def Let_def delay_ms_def
      word_le_nat_alt word_less_nat_alt)
  apply (subst paged_write_loop.simps)
  apply simp
  done

lemma parse_port_002:
  "parse_port ''usb:002:004'' = (Some ''usb:002:004'', Some ''002'', Some ''004'')"
  by (simp add: parse_port_def str_eq_def str_starts_def)

lemma ex_open_trace:
  "open_outcome (micronucleus_open 0 [] (example_pdata 1) ''usb:001:004'' discovery_world)
     = Some (0, Some example_device,
         [Open device_005 True, Ctrl device_005 (info_request 4), Close device_005,
          Open example_device True, Ctrl example_device (info_request 4), Close example_device,
          Open example_device True])"
  apply (simp add: micronucleus_open_def parse_port_example)
  apply (subst open_loop.simps)
  apply (simp add: discovery_world_def device_005_def example_device_def example_pdata_def
      MICRONUCLEUS_VID_def MICRONUCLEUS_PID_def MICRONUCLEUS_MAX_MAJOR_VERSION_def
      micronucleus_is_device_responsive_def micronucleus_check_connection_def
      usb_open_def usb_close_def usb_control_msg_def info_request_def open_outcome_def
      locator_rejects_def str_eq_def word_le_nat_alt word_less_nat_alt)
  done

lemma ex_split_none:
  "open_outcome (micronucleus_open 0 [] (example_pdata 1) ''usb:001:004'' split_world)
     = Some (-1, None,
         [Open device_005 True, Ctrl device_005 (info_request 4), Close device_005,
          Open example_device True, Ctrl example_device (info_request 4), Close example_device])"
  apply (simp add: micronucleus_open_def parse_port_example)
  apply (subst open_loop.simps)
  apply (simp add: split_world_def discovery_world_def device_005_def example_device_def example_pdata_def
      MICRONUCLEUS_VID_def MICRONUCLEUS_PID_def MICRONUCLEUS_MAX_MAJOR_VERSION_def
      micronucleus_is_device_responsive_def micronucleus_check_connection_def
      usb_open_def usb_close_def usb_control_msg_def info_request_def open_outcome_def
      locator_rejects_def str_eq_def word_le_nat_alt word_less_nat_alt)
  done

lemma ex_split_later_bus:
  "open_outcome (micronucleus_open 0 [] (example_pdata 1) ''usb:002:004'' split_world)
     = Some (0, Some example_device,
         [Open device_005 True, Ctrl device_005 (info_request 4), Close device_005,
          Open example_device True, Ctrl example_device (info_request 4), Close example_device,
          Open example_device True])"
  apply (simp add: micronucleus_open_def parse_port_002)
  apply (subst open_loop.simps)
  apply (simp add: split_world_def discovery_world_def device_005_def example_device_def example_pdata_def
      MICRONUCLEUS_VID_def MICRONUCLEUS_PID_def MICRONUCLEUS_MAX_MAJOR_VERSION_def
      micronucleus_is_device_responsive_def micronucleus_check_connection_def
      usb_open_def usb_close_def usb_control_msg_def info_request_def open_outcome_def
      locator_rejects_def str_eq_def word_le_nat_alt word_less_nat_alt)
  done




section \<open>The claims\<close>

subsection \<open>C2: the V1 info block of scenario A\<close>

text \<open>
  C2, as the spec states it, gives the info block \<open>[0x10, 0x00, 0x40, 0x02]\<close> the guessed
  signature \<open>(0x93, 0x0B)\<close> of the ATtiny85. The resolver guesses that signature only for a
  flash size strictly above 4096; the flash size of this block is exactly 4096, so the
  first signature byte it stores is not \<open>0x93\<close>.
\<close>

theorem C2_signature_counterexample:
  "map_option signature1
     (session_of (micronucleus_get_bootloader_info_v1 (example_pdata 1)
        (example_world (4, [0x10, 0x00, 0x40, 0x02])))) \<noteq> Some 0x93"
  by (simp add: micronucleus_get_bootloader_info_v1_def usb_control_msg_def info_request_def
      guess_signature_def calculated_info_def example_pdata_def example_world_def
      session_of_def Let_def)

text \<open>
  C2 (amended): for the V1 info block \<open>[0x10, 0x00, 0x40, 0x02]\<close> the resolver succeeds with
  flash size 4096 (bytes 1 and 2, big-endian), page size 64, write sleep 2 (the low 7
  bits of byte 4), 64 pages, bootloader start 4096, and the guessed signature
  \<open>(0x92, 0x06)\<close>: the ATtiny45 branch, since 4096 is not greater than 4096.
\<close>

theorem C2_v1_scenario_A:
  assumes "usb_handle pdata = Some d"
    and "usb_reply w (trace w) (info_request 4) = (4, [0x10, 0x00, 0x40, 0x02])"
  shows "\<exists>pdata' w'. micronucleus_get_bootloader_info_v1 pdata w = Inr (0, pdata', w')
    \<and> flash_size pdata' = 4096 \<and> page_size pdata' = 64 \<and> write_sleep pdata' = 2
    \<and> pages pdata' = 64 \<and> bootloader_start pdata' = 4096
    \<and> signature1 pdata' = 0x92 \<and> signature2 pdata' = 0x06"
  using assms
  by (simp add: micronucleus_get_bootloader_info_v1_def usb_control_msg_def info_request_def
      guess_signature_def calculated_info_def Let_def)

theorem C2_v1_scenario_A_witness:
  "usb_handle (example_pdata 1) = Some example_device
   \<and> usb_reply (example_world (4, [0x10, 0x00, 0x40, 0x02]))
        (trace (example_world (4, [0x10, 0x00, 0x40, 0x02]))) (info_request 4)
      = (4, [0x10, 0x00, 0x40, 0x02])
   \<and> (\<exists>pdata' w'. micronucleus_get_bootloader_info_v1 (example_pdata 1)
          (example_world (4, [0x10, 0x00, 0x40, 0x02])) = Inr (0, pdata', w')
        \<and> flash_size pdata' = 4096 \<and> page_size pdata' = 64 \<and> write_sleep pdata' = 2
        \<and> pages pdata' = 64 \<and> bootloader_start pdata' = 4096
        \<and> signature1 pdata' = 0x92 \<and> signature2 pdata' = 0x06)"
proof -
  have h: "usb_handle (example_pdata 1) = Some example_device"
    by (simp add: example_pdata_def)
  have r: "usb_reply (example_world (4, [0x10, 0x00, 0x40, 0x02]))
        (trace (example_world (4, [0x10, 0x00, 0x40, 0x02]))) (info_request 4)
      = (4, [0x10, 0x00, 0x40, 0x02])"
    by (simp add: example_world_def)
  from C2_v1_scenario_A [OF h r] h r show ?thesis by blast
qed

subsection \<open>C3: the geometry invariant\<close>

text \<open>
  C3, as the spec states it, has \<open>bootloader_start = page_count * page_size\<close> for every
  decoded info block. \<^verbatim>\<open>bootloader_start\<close> is a 16-bit field: for the V1 block
  \<open>[0xFF, 0xFF, 0x02, 0x00]\<close> (flash size 65535, page size 2) the page count is 32768,
  the product 65536, and the field holds 0.
\<close>

theorem C3_overflow_counterexample:
  "map_option spec_geometry_invariant
     (session_of (micronucleus_get_bootloader_info_v1 (example_pdata 1)
        (example_world (4, [0xFF, 0xFF, 0x02, 0x00])))) = Some False"
  by (simp add: micronucleus_get_bootloader_info_v1_def usb_control_msg_def info_request_def
      guess_signature_def calculated_info_def example_pdata_def example_world_def
      session_of_def spec_geometry_invariant_def Let_def)

text \<open>
  C3 (amended): for every info block that the V1 or the V2 resolver decodes with success,
  the page size is not 0, the page count is the ceiling of flash size over page size, and
  \<open>bootloader_start\<close> is \<open>page_count * page_size\<close> modulo \<open>2^16\<close>, which is the product
  itself (the invariant of the spec) whenever the product is below 65536. No other
  operation changes the geometry: a page write, a paged write, a chip erase, powerdown, open
  and close return the session with the geometry they were given (reading the signature,
  the start command and the connection check return no session at all).
\<close>

theorem C3_geometry:
  "(micronucleus_get_bootloader_info_v1 pdata w = Inr (0, pd', w')
      \<or> micronucleus_get_bootloader_info_v2 pdata w = Inr (0, pd', w') \<longrightarrow>
      page_size pd' \<noteq> 0
      \<and> uint (flash_size pd') \<le> uint (pages pd') * uint (page_size pd')
      \<and> uint (pages pd') * uint (page_size pd') < uint (flash_size pd') + uint (page_size pd')
      \<and> uint (bootloader_start pd') = (uint (pages pd') * uint (page_size pd')) mod 65536
      \<and> (uint (pages pd') * uint (page_size pd') < 65536 \<longrightarrow> spec_geometry_invariant pd'))
   \<and> (micronucleus_write_page s address buffer sz w1 = Inr (r1, s1, w1') \<longrightarrow>
        geometry s1 = geometry s)
   \<and> (micronucleus_paged_write s mem page_size_arg addr n_bytes w2 = Some (Inr (r2, s2, w2')) \<longrightarrow>
        geometry s2 = geometry s)
   \<and> (micronucleus_chip_erase eio epipe s w3 = Inr (r3, s3, w3') \<longrightarrow> geometry s3 = geometry s)
   \<and> (micronucleus_powerdown s w4 = Inr (s4, w4') \<longrightarrow> geometry s4 = geometry s)
   \<and> (micronucleus_open usbvid usbpid s port w5 = Some (Inr (r5, s5, w5')) \<longrightarrow>
        geometry s5 = geometry s)
   \<and> geometry (fst (micronucleus_close s w6)) = geometry s"
proof (intro conjI impI)
  assume "micronucleus_get_bootloader_info_v1 pdata w = Inr (0, pd', w')
      \<or> micronucleus_get_bootloader_info_v2 pdata w = Inr (0, pd', w')"
  then have d: "page_size pd' \<noteq> 0 \<and>
     pages pd' = word_of_int
       ((uint (flash_size pd') + uint (page_size pd') - 1) div uint (page_size pd')) \<and>
     bootloader_start pd' = word_of_int (uint (pages pd') * uint (page_size pd'))"
    using info_v1_decoded info_v2_decoded by blast
  then show "page_size pd' \<noteq> 0" by simp
  from d have ps: "page_size pd' \<noteq> 0" and pg: "pages pd' = word_of_int
       ((uint (flash_size pd') + uint (page_size pd') - 1) div uint (page_size pd'))"
    and bs: "bootloader_start pd' = word_of_int (uint (pages pd') * uint (page_size pd'))"
    by simp_all
  note g = decoded_geometry [OF ps pg bs]
  show "uint (flash_size pd') \<le> uint (pages pd') * uint (page_size pd')" by (rule g(1))
  show "uint (pages pd') * uint (page_size pd') < uint (flash_size pd') + uint (page_size pd')"
    by (rule g(2))
  show "uint (bootloader_start pd') = (uint (pages pd') * uint (page_size pd')) mod 65536"
    by (rule g(3))
  show "spec_geometry_invariant pd'" if "uint (pages pd') * uint (page_size pd') < 65536"
  proof -
    have "0 \<le> uint (pages pd') * uint (page_size pd')" by simp
    with that g show ?thesis by (simp add: spec_geometry_invariant_def)
  qed
next
  assume "micronucleus_write_page s address buffer sz w1 = Inr (r1, s1, w1')"
  then show "geometry s1 = geometry s" by (rule write_page_geometry)
next
  assume "micronucleus_paged_write s mem page_size_arg addr n_bytes w2 = Some (Inr (r2, s2, w2'))"
  then show "geometry s2 = geometry s" by (rule paged_write_geometry)
next
  assume "micronucleus_chip_erase eio epipe s w3 = Inr (r3, s3, w3')"
  then show "geometry s3 = geometry s"
    unfolding micronucleus_chip_erase_def by (rule erase_device_geometry)
next
  assume "micronucleus_powerdown s w4 = Inr (s4, w4')"
  then show "geometry s4 = geometry s" by (rule powerdown_geometry)
next
  assume "micronucleus_open usbvid usbpid s port w5 = Some (Inr (r5, s5, w5'))"
  then show "geometry s5 = geometry s" by (rule open_geometry)
next
  show "geometry (fst (micronucleus_close s w6)) = geometry s" by (rule close_geometry)
qed

theorem C3_geometry_witness:
  "(\<exists>pd' w'. micronucleus_get_bootloader_info_v1 (example_pdata 1)
        (example_world (4, [0x10, 0x00, 0x40, 0x02])) = Inr (0, pd', w')
      \<and> page_size pd' \<noteq> 0 \<and> spec_geometry_invariant pd')
   \<and> (\<exists>r s w'. micronucleus_write_page (example_session 1) 64 (replicate 64 0) 64
          (example_world (0, [])) = Inr (r, s, w') \<and> geometry s = geometry (example_session 1))
   \<and> (\<exists>r s w'. micronucleus_paged_write (example_session 1) example_mem 64 64 64
          (example_world (0, [])) = Some (Inr (r, s, w'))
        \<and> geometry s = geometry (example_session 1))
   \<and> (\<exists>r s w'. micronucleus_chip_erase 5 32 (example_session 1) (example_world (0, []))
          = Inr (r, s, w') \<and> geometry s = geometry (example_session 1))
   \<and> (\<exists>s w'. micronucleus_powerdown
          ((example_session 1)\<lparr>write_last_page := True, start_program := True\<rparr>)
          (example_world (0, [])) = Inr (s, w')
        \<and> geometry s = geometry ((example_session 1)\<lparr>write_last_page := True,
              start_program := True\<rparr>))
   \<and> (\<exists>r s w'. micronucleus_open 0 [] (example_session 1) ''usb'' (example_world (0, []))
          = Some (Inr (r, s, w')) \<and> geometry s = geometry (example_session 1))"
proof (intro conjI)
  from ex_info obtain pd' w' where
    i: "micronucleus_get_bootloader_info_v1 (example_pdata 1)
        (example_world (4, [0x10, 0x00, 0x40, 0x02])) = Inr (0, pd', w')"
    and lt: "uint (pages pd') * uint (page_size pd') < 65536"
    by blast
  from C3_geometry [where pdata = "example_pdata 1"
      and w = "example_world (4, [0x10, 0x00, 0x40, 0x02])" and pd' = pd' and w' = w', THEN conjunct1] i lt
  have "page_size pd' \<noteq> 0 \<and> spec_geometry_invariant pd'"
    by simp
  with i show "\<exists>pd' w'. micronucleus_get_bootloader_info_v1 (example_pdata 1)
        (example_world (4, [0x10, 0x00, 0x40, 0x02])) = Inr (0, pd', w')
      \<and> page_size pd' \<noteq> 0 \<and> spec_geometry_invariant pd'"
    by blast
next
  from ex_write_page obtain r s w' where
    e: "micronucleus_write_page (example_session 1) 64 (replicate 64 0) 64
          (example_world (0, [])) = Inr (r, s, w')"
    by blast
  from C3_geometry [where s = "example_session 1" and address = 64
      and buffer = "replicate 64 0" and sz = 64 and ?w1.0 = "example_world (0, [])"
      and ?r1.0 = r and ?s1.0 = s and ?w1' = w',
      THEN conjunct2, THEN conjunct1] e
  have "geometry s = geometry (example_session 1)"
    by simp
  with e show "\<exists>r s w'. micronucleus_write_page (example_session 1) 64 (replicate 64 0) 64
          (example_world (0, [])) = Inr (r, s, w') \<and> geometry s = geometry (example_session 1)"
    by blast
next
  from ex_paged_write obtain r s w' where
    e: "micronucleus_paged_write (example_session 1) example_mem 64 64 64
          (example_world (0, [])) = Some (Inr (r, s, w'))"
    by blast
  from C3_geometry [where s = "example_session 1" and mem = example_mem
      and page_size_arg = 64 and addr = 64 and n_bytes = 64
      and ?w2.0 = "example_world (0, [])" and ?r2.0 = r and ?s2.0 = s and ?w2' = w',
      THEN conjunct2, THEN conjunct2, THEN conjunct1] e
  have "geometry s = geometry (example_session 1)"
    by simp
  with e show "\<exists>r s w'. micronucleus_paged_write (example_session 1) example_mem 64 64 64
          (example_world (0, [])) = Some (Inr (r, s, w'))
        \<and> geometry s = geometry (example_session 1)"
    by blast
next
  from ex_chip_erase obtain r s w' where
    e: "micronucleus_chip_erase 5 32 (example_session 1) (example_world (0, []))
          = Inr (r, s, w')"
    by blast
  from C3_geometry [where s = "example_session 1" and eio = 5 and epipe = 32
      and ?w3.0 = "example_world (0, [])" and ?r3.0 = r and ?s3.0 = s and ?w3' = w',
      THEN conjunct2, THEN conjunct2, THEN conjunct2, THEN conjunct1] e
  have "geometry s = geometry (example_session 1)"
    by simp
  with e show "\<exists>r s w'. micronucleus_chip_erase 5 32 (example_session 1)
          (example_world (0, [])) = Inr (r, s, w') \<and> geometry s = geometry (example_session 1)"
    by blast
next
  from ex_powerdown obtain s w' where
    e: "micronucleus_powerdown
          ((example_session 1)\<lparr>write_last_page := True, start_program := True\<rparr>)
          (example_world (0, [])) = Inr (s, w')"
    by blast
  from C3_geometry [where s = "(example_session 1)\<lparr>write_last_page := True,
        start_program := True\<rparr>"
      and ?w4.0 = "example_world (0, [])" and ?s4.0 = s and ?w4' = w',
      THEN conjunct2, THEN conjunct2, THEN conjunct2, THEN conjunct2, THEN conjunct1] e
  have "geometry s = geometry ((example_session 1)\<lparr>write_last_page := True,
              start_program := True\<rparr>)"
    by simp
  with e show "\<exists>s w'. micronucleus_powerdown
          ((example_session 1)\<lparr>write_last_page := True, start_program := True\<rparr>)
          (example_world (0, [])) = Inr (s, w')
        \<and> geometry s = geometry ((example_session 1)\<lparr>write_last_page := True,
              start_program := True\<rparr>)"
    by blast
next
  from ex_open obtain r s w' where
    e: "micronucleus_open 0 [] (example_session 1) ''usb'' (example_world (0, []))
          = Some (Inr (r, s, w'))"
    by blast
  from C3_geometry [where s = "example_session 1" and usbvid = 0 and usbpid = "[]"
      and port = "''usb''" and ?w5.0 = "example_world (0, [])" and ?r5.0 = r and ?s5.0 = s
      and ?w5' = w', THEN conjunct2, THEN conjunct2, THEN conjunct2, THEN conjunct2,
      THEN conjunct2, THEN conjunct1] e
  have "geometry s = geometry (example_session 1)"
    by simp
  with e show "\<exists>r s w'. micronucleus_open 0 [] (example_session 1) ''usb''
          (example_world (0, [])) = Some (Inr (r, s, w'))
        \<and> geometry s = geometry (example_session 1)"
    by blast
qed

subsection \<open>C4: the V2 timing\<close>

text \<open>
  C4, as the spec states it, has \<open>erase_sleep = (7 * page_count) / 4\<close> for every V2 block
  whose fourth byte is \<open>0x85\<close>. \<^verbatim>\<open>erase_sleep\<close> is a 16-bit field and the product is
  truncated to it before the division: for the block \<open>[0xFF, 0xFF, 0x01, 0x85, 0x93, 0x0B]\<close>
  (65535 pages) the product is 458745, the field holds 65529 and then 16382, not 114686.
\<close>

theorem C4_overflow_counterexample:
  "map_option (spec_v2_timing 0x85)
     (session_of (micronucleus_get_bootloader_info_v2 (example_pdata 2)
        (example_world (6, [0xFF, 0xFF, 0x01, 0x85, 0x93, 0x0B])))) = Some False"
  by (simp add: micronucleus_get_bootloader_info_v2_def usb_control_msg_def info_request_def
      calculated_info_def example_pdata_def example_world_def
      session_of_def spec_v2_timing_def Let_def)

text \<open>
  C4 (amended): for every 6-byte V2 info block with a page size other than 0, the resolver
  succeeds, \<open>write_sleep\<close> is \<open>(byte4 & 127) + 2\<close>, and \<open>erase_sleep\<close> is
  \<open>write_sleep * page_count\<close> modulo \<open>2^16\<close>, divided by 4 (integer division) when bit 7 of
  byte 4 is set; the timing of the spec holds whenever \<open>write_sleep * page_count\<close> is
  below 65536. For \<open>byte4 = 0x85\<close> the write sleep is 7 and the erase sleep is
  \<open>((7 * page_count) mod 2^16) / 4\<close>.
\<close>

theorem C4_v2_timing:
  assumes "usb_handle pdata = Some d"
    and "usb_reply w (trace w) (info_request 6) = (6, block)"
    and "length block = 6" and "block ! 2 \<noteq> 0"
  shows "\<exists>pd' w'. micronucleus_get_bootloader_info_v2 pdata w = Inr (0, pd', w')
     \<and> uint (write_sleep pd') = uint ((block ! 3) AND 127) + 2
     \<and> uint (erase_sleep pd') =
         (if (block ! 3) AND 128 \<noteq> 0
          then ((uint (write_sleep pd') * uint (pages pd')) mod 65536) div 4
          else (uint (write_sleep pd') * uint (pages pd')) mod 65536)
     \<and> (uint (write_sleep pd') * uint (pages pd') < 65536 \<longrightarrow> spec_v2_timing (block ! 3) pd')
     \<and> (block ! 3 = 0x85 \<longrightarrow> write_sleep pd' = 7
           \<and> uint (erase_sleep pd') = ((7 * uint (pages pd')) mod 65536) div 4)"
proof -
  from info_v2_result [OF assms] obtain pd' w' where
    r: "micronucleus_get_bootloader_info_v2 pdata w = Inr (0, pd', w')"
    and ws: "write_sleep pd' = word_of_int (uint ((block ! 3) AND 127) + 2)"
    and es: "erase_sleep pd' =
         (if (block ! 3) AND 128 \<noteq> 0
          then word_of_int (uint (write_sleep pd') * uint (pages pd')) div 4
          else word_of_int (uint (write_sleep pd') * uint (pages pd')))"
    by blast
  have uws: "uint (write_sleep pd') = uint ((block ! 3) AND 127) + 2"
    unfolding ws by (rule uint_low7)
  have ues: "uint (erase_sleep pd') =
         (if (block ! 3) AND 128 \<noteq> 0
          then ((uint (write_sleep pd') * uint (pages pd')) mod 65536) div 4
          else (uint (write_sleep pd') * uint (pages pd')) mod 65536)"
    unfolding es by (simp only: uint_div uint_u16_of_int if_distrib [of uint]) simp
  have small: "spec_v2_timing (block ! 3) pd'"
    if "uint (write_sleep pd') * uint (pages pd') < 65536"
  proof -
    have "0 \<le> uint (write_sleep pd') * uint (pages pd')" by simp
    with that have "(uint (write_sleep pd') * uint (pages pd')) mod 65536
        = uint (write_sleep pd') * uint (pages pd')"
      by simp
    with uws ues show ?thesis by (simp add: spec_v2_timing_def)
  qed
  have s85: "write_sleep pd' = 7 \<and> uint (erase_sleep pd') = ((7 * uint (pages pd')) mod 65536) div 4"
    if "block ! 3 = 0x85"
  proof -
    from that ws have w7: "write_sleep pd' = 7" by simp
    from that ues w7 show ?thesis by simp
  qed
  from r uws ues small s85 show ?thesis by blast
qed


theorem C4_v2_timing_witness:
  "usb_handle (example_pdata 2) = Some example_device
   \<and> usb_reply (example_world (6, [0x18, 0x00, 0x40, 0x85, 0x93, 0x0B]))
        (trace (example_world (6, [0x18, 0x00, 0x40, 0x85, 0x93, 0x0B]))) (info_request 6)
       = (6, [0x18, 0x00, 0x40, 0x85, 0x93, 0x0B])
   \<and> length [0x18, 0x00, 0x40, 0x85, 0x93, 0x0B :: u8] = 6
   \<and> [0x18, 0x00, 0x40, 0x85, 0x93, 0x0B :: u8] ! 2 \<noteq> 0
   \<and> (\<exists>pd' w'. micronucleus_get_bootloader_info_v2 (example_pdata 2)
          (example_world (6, [0x18, 0x00, 0x40, 0x85, 0x93, 0x0B])) = Inr (0, pd', w')
        \<and> write_sleep pd' = 7
        \<and> uint (erase_sleep pd') = ((7 * uint (pages pd')) mod 65536) div 4)"
proof -
  have h: "usb_handle (example_pdata 2) = Some example_device"
    by (simp add: example_pdata_def)
  have r: "usb_reply (example_world (6, [0x18, 0x00, 0x40, 0x85, 0x93, 0x0B]))
        (trace (example_world (6, [0x18, 0x00, 0x40, 0x85, 0x93, 0x0B]))) (info_request 6)
       = (6, [0x18, 0x00, 0x40, 0x85, 0x93, 0x0B])"
    by (simp add: example_world_def)
  have l: "length [0x18, 0x00, 0x40, 0x85, 0x93, 0x0B :: u8] = 6"
    by simp
  have p: "[0x18, 0x00, 0x40, 0x85, 0x93, 0x0B :: u8] ! 2 \<noteq> 0"
    by simp
  from C4_v2_timing [OF h r l p] have
    "\<exists>pd' w'. micronucleus_get_bootloader_info_v2 (example_pdata 2)
          (example_world (6, [0x18, 0x00, 0x40, 0x85, 0x93, 0x0B])) = Inr (0, pd', w')
        \<and> write_sleep pd' = 7
        \<and> uint (erase_sleep pd') = ((7 * uint (pages pd')) mod 65536) div 4"
    by auto
  with h r l p show ?thesis by blast
qed

subsection \<open>C6: the bounds check of a paged write\<close>

text \<open>
  C6, as the spec states it, rejects every call whose \<open>address + size\<close> exceeds the flash
  size. The source adds two \<^verbatim>\<open>unsigned int\<close>s, so the sum is taken modulo \<open>2^32\<close>: for
  address \<open>0xFFFFFFFF\<close> and size 1 the sum is 0, the call passes both checks and goes on
  to copy from the memory image at that address, outside the image.
\<close>

theorem C6_wrap_counterexample:
  "micronucleus_paged_write (example_session 1) example_mem 64 0xFFFFFFFF 1
      (example_world (0, [])) = Some (Inl OutOfBounds)"
  apply (simp add: micronucleus_paged_write_def example_session_def example_pdata_def)
  apply (subst paged_write_loop.simps)
  apply (simp add: example_mem_def word_less_nat_alt)
  done

text \<open>
  C6 (amended): every flash paged write whose size exceeds the caller's page size, or
  whose \<open>address + size\<close>, taken modulo \<open>2^32\<close> as the source computes it, exceeds the flash
  size of the session, returns the error code \<open>-1\<close>, with the session and the environment
  (the trace of transport requests included) as they were.
\<close>

theorem C6_bounds_rejection:
  assumes "mem_is_flash mem"
    and "unat page_size_arg < unat n_bytes
         \<or> unat (flash_size pdata) < (unat addr + unat n_bytes) mod 2 ^ 32"
  shows "micronucleus_paged_write pdata mem page_size_arg addr n_bytes w
           = Some (Inr (-1, pdata, w))"
proof -
  have "unat (addr + n_bytes) = (unat addr + unat n_bytes) mod 2 ^ 32"
    by (simp add: unat_word_ariths)
  moreover have "unat (ucast (flash_size pdata) :: u32) = unat (flash_size pdata)"
    by (rule unat_ucast_16_32)
  ultimately show ?thesis
    using assms by (auto simp: micronucleus_paged_write_def word_less_nat_alt)
qed

theorem C6_bounds_rejection_witness:
  "mem_is_flash example_mem
   \<and> unat (flash_size (example_session 1)) < (unat (4090 :: u32) + unat (64 :: u32)) mod 2 ^ 32
   \<and> micronucleus_paged_write (example_session 1) example_mem 64 4090 64 (example_world (0, []))
       = Some (Inr (-1, example_session 1, example_world (0, [])))
   \<and> unat (64 :: u32) < unat (65 :: u32)
   \<and> micronucleus_paged_write (example_session 1) example_mem 64 0 65 (example_world (0, []))
       = Some (Inr (-1, example_session 1, example_world (0, [])))"
proof -
  have a: "mem_is_flash example_mem"
    by (simp add: example_mem_def)
  have b: "unat (flash_size (example_session 1)) < (unat (4090 :: u32) + unat (64 :: u32)) mod 2 ^ 32"
    by (simp add: example_session_def example_pdata_def)
  have c: "unat (64 :: u32) < unat (65 :: u32)"
    by simp
  from C6_bounds_rejection [OF a disjI2, OF b] C6_bounds_rejection [OF a disjI1, OF c] a b c
  show ?thesis by blast
qed


subsection \<open>C10: reading the signature\<close>

text \<open>
  C10: for a memory whose declared size is the length of its buffer,
  \<^verbatim>\<open>micronucleus_read_sig_bytes\<close> returns \<open>-1\<close> and leaves the memory as it was when the buffer
  has fewer than 3 bytes; otherwise it returns 0 and the buffer holds \<open>0x1E\<close>, \<open>signature1\<close>
  and \<open>signature2\<close> of the session in its first three positions and is unchanged after
  them. The function reads the session and returns none: the session is not changed.
\<close>

theorem C10_read_sig_bytes:
  assumes "mem_size mem = int (length (mem_buf mem))"
  shows "(length (mem_buf mem) < 3 \<longrightarrow>
            micronucleus_read_sig_bytes pdata mem = Inr (-1, mem))
    \<and> (3 \<le> length (mem_buf mem) \<longrightarrow>
            micronucleus_read_sig_bytes pdata mem =
              Inr (0, mem\<lparr>mem_buf := 0x1E # signature1 pdata # signature2 pdata
                                   # drop 3 (mem_buf mem)\<rparr>))"
  using assms by (auto simp: micronucleus_read_sig_bytes_def sig_update)

theorem C10_read_sig_bytes_witness:
  "mem_size (example_sig_mem 2) = int (length (mem_buf (example_sig_mem 2)))
   \<and> length (mem_buf (example_sig_mem 2)) < 3
   \<and> micronucleus_read_sig_bytes (example_session 1) (example_sig_mem 2)
       = Inr (-1, example_sig_mem 2)
   \<and> mem_size (example_sig_mem 4) = int (length (mem_buf (example_sig_mem 4)))
   \<and> 3 \<le> length (mem_buf (example_sig_mem 4))
   \<and> micronucleus_read_sig_bytes (example_session 1) (example_sig_mem 4)
       = Inr (0, (example_sig_mem 4)\<lparr>mem_buf := [0x1E, 0x92, 0x06, 0xFF]\<rparr>)"
proof -
  have a: "mem_size (example_sig_mem 2) = int (length (mem_buf (example_sig_mem 2)))"
    and b: "length (mem_buf (example_sig_mem 2)) < 3"
    and c: "mem_size (example_sig_mem 4) = int (length (mem_buf (example_sig_mem 4)))"
    and d: "3 \<le> length (mem_buf (example_sig_mem 4))"
    by (simp_all add: example_sig_mem_def)
  have e: "0x1E # signature1 (example_session 1) # signature2 (example_session 1)
        # drop 3 (mem_buf (example_sig_mem 4)) = [0x1E, 0x92, 0x06, 0xFF]"
    by (simp add: example_sig_mem_def example_session_def example_pdata_def eval_nat_numeral)
  from C10_read_sig_bytes [OF a, of "example_session 1"] b
  have f: "micronucleus_read_sig_bytes (example_session 1) (example_sig_mem 2)
       = Inr (-1, example_sig_mem 2)"
    by simp
  from C10_read_sig_bytes [OF c, of "example_session 1"] d e
  have g: "micronucleus_read_sig_bytes (example_session 1) (example_sig_mem 4)
       = Inr (0, (example_sig_mem 4)\<lparr>mem_buf := [0x1E, 0x92, 0x06, 0xFF]\<rparr>)"
    by simp
  from a b c d f g show ?thesis by simp
qed

subsection \<open>C7: the life cycle of the session flags\<close>

text \<open>
  C7, as the spec states it, has the write of the page at \<open>bootloader_start - page_size\<close>
  clear the pending-last-page flag, powerdown leave both flags false, and every write of
  the page at address 0 set both flags. On a part whose flash is a single page that page
  is page 0: \<^verbatim>\<open>micronucleus_write_page\<close> tests \<open>address == 0\<close> first and sets the flag, also
  for the blank page that powerdown writes under protocol V1, after powerdown has cleared
  the flag. And under protocol V2 a page 0 that does not begin with a branch is refused
  before the flags are set: the write returns \<open>-1\<close> with both flags as they were.
\<close>

theorem C7_flags_counterexample:
  "map_option write_last_page
     (session_of (micronucleus_write_page single_page_session
        (last_page_address single_page_session) (replicate 64 0) 64 (example_world (0, []))))
     = Some True
   \<and> map_option write_last_page
     (final_session (micronucleus_powerdown
        (single_page_session\<lparr>write_last_page := True, start_program := True\<rparr>)
        (example_world (0, [])))) = Some True
   \<and> map_option write_last_page
     (session_of (micronucleus_write_page (example_session 2) 0 (replicate 64 0) 64
        (example_world (0, [])))) = Some False
   \<and> map_option start_program
     (session_of (micronucleus_write_page (example_session 2) 0 (replicate 64 0) 64
        (example_world (0, [])))) = Some False"
proof -
  have "map_option write_last_page
     (session_of (micronucleus_write_page single_page_session
        (last_page_address single_page_session) (replicate 64 0) 64 (example_world (0, []))))
     = Some True
   \<and> map_option write_last_page
     (final_session (micronucleus_powerdown
        (single_page_session\<lparr>write_last_page := True, start_program := True\<rparr>)
        (example_world (0, [])))) = Some True"
    by (simp add: micronucleus_powerdown_def micronucleus_start_def
      micronucleus_write_page_def write_page_prepare_def micronucleus_write_page_v1_def
      usb_control_msg_def delay_ms_def last_page_address_def session_of_def final_session_def
      single_page_session_def example_pdata_def example_world_def Let_def
      word_le_nat_alt word_less_nat_alt)
  moreover have "map_option write_last_page
     (session_of (micronucleus_write_page (example_session 2) 0 (replicate 64 0) 64
        (example_world (0, [])))) = Some False
   \<and> map_option start_program
     (session_of (micronucleus_write_page (example_session 2) 0 (replicate 64 0) 64
        (example_world (0, [])))) = Some False"
    using ex_write_first_no_branch
    by (simp add: session_of_def example_session_def example_pdata_def)
  ultimately show ?thesis by simp
qed

text \<open>
  C7 (amended): a write of the page at address 0 sets both the pending-last-page and the
  pending-start flag, whatever the transfer returns; only under protocol V2, when the page
  does not begin with a branch (the reset-vector patch returns \<open>-1\<close>), the write returns
  \<open>-1\<close> with the session as it was and nothing transmitted. Where the last page is not
  page 0 (\<open>bootloader_start - page_size\<close> is not 0), a write of the page at that address
  clears the pending-last-page flag and leaves the pending-start flag; and powerdown, when
  it returns, leaves both flags false, having first, when pending-last-page was set,
  written a page of \<open>page_size\<close> bytes \<open>0xFF\<close> to that address (under protocol V2 the
  application-vector patch is applied to it and the patched buffer goes to the transmitter)
  and last, when pending-start was set, issued the start command; with neither flag set it
  does nothing.
\<close>

theorem C7_lifecycle:
  "(micronucleus_write_page pdata 0 buffer sz w = Inr (r1, pd1, w1) \<longrightarrow>
      (if major_version pdata \<ge> 2
          \<and> micronucleus_patch_reset_vector pdata buffer = Inr (-1, pdata, buffer)
       then r1 = -1 \<and> pd1 = pdata \<and> w1 = w\<lparr>trace := trace w @ [WritePage 0 buffer sz]\<rparr>
       else write_last_page pd1 \<and> start_program pd1))
   \<and> (last_page_address pdata \<noteq> 0
       \<and> micronucleus_write_page pdata (last_page_address pdata) buffer sz w = Inr (r2, pd2, w2)
       \<longrightarrow> \<not> write_last_page pd2 \<and> start_program pd2 = start_program pdata)
   \<and> (last_page_address pdata \<noteq> 0 \<and> micronucleus_powerdown pdata w = Inr (pd3, w3) \<longrightarrow>
        \<not> write_last_page pd3 \<and> \<not> start_program pd3
        \<and> (write_last_page pdata \<longrightarrow>
             (\<exists>rest. trace w3 = trace w @
                WritePage (last_page_address pdata) (replicate (unat (page_size pdata)) 0xFF)
                  (ucast (page_size pdata)) # rest)
             \<and> (major_version pdata \<ge> 2 \<longrightarrow>
                  (\<exists>patched rv wv.
                     micronucleus_patch_user_vector pdata
                       (replicate (unat (page_size pdata)) 0xFF) = Inr patched
                     \<and> micronucleus_write_page_v2 (pdata\<lparr>write_last_page := False\<rparr>)
                         (last_page_address pdata) patched (ucast (page_size pdata))
                         (w\<lparr>trace := trace w @
                            [WritePage (last_page_address pdata)
                               (replicate (unat (page_size pdata)) 0xFF)
                               (ucast (page_size pdata))]\<rparr>) = Inr (rv, wv))))
        \<and> (start_program pdata \<longrightarrow>
             (\<exists>d front. usb_handle pdata = Some d \<and> trace w3 = front @ [Ctrl d start_request]))
        \<and> (\<not> write_last_page pdata \<and> \<not> start_program pdata \<longrightarrow> w3 = w))"
proof (intro conjI impI)
  assume "micronucleus_write_page pdata 0 buffer sz w = Inr (r1, pd1, w1)"
  then show "if major_version pdata \<ge> 2
          \<and> micronucleus_patch_reset_vector pdata buffer = Inr (-1, pdata, buffer)
       then r1 = -1 \<and> pd1 = pdata \<and> w1 = w\<lparr>trace := trace w @ [WritePage 0 buffer sz]\<rparr>
       else write_last_page pd1 \<and> start_program pd1"
    by (rule write_page_first_any)
next
  assume "last_page_address pdata \<noteq> 0
       \<and> micronucleus_write_page pdata (last_page_address pdata) buffer sz w = Inr (r2, pd2, w2)"
  then have "\<not> write_last_page pd2 \<and> start_program pd2 = start_program pdata"
    using write_page_last by blast
  then show "\<not> write_last_page pd2" "start_program pd2 = start_program pdata"
    by simp_all
next
  assume a: "last_page_address pdata \<noteq> 0 \<and> micronucleus_powerdown pdata w = Inr (pd3, w3)"
  then have nz: "last_page_address pdata \<noteq> 0"
    and pw: "micronucleus_powerdown pdata w = Inr (pd3, w3)"
    by simp_all
  let ?blank = "replicate (unat (page_size pdata)) (0xFF :: u8)"
  let ?p0 = "pdata\<lparr>write_last_page := False\<rparr>"
  text \<open>The first half of powerdown: the synthesized page write, if any.\<close>
  obtain pdm wm where
    mid: "(if write_last_page pdata then
              (case micronucleus_write_page ?p0 (last_page_address pdata) ?blank
                      (ucast (page_size pdata)) w of
                 Inl f \<Rightarrow> Inl f
               | Inr (result, pdata1, w1) \<Rightarrow> Inr (pdata1, w1))
            else Inr (pdata, w)) = Inr (pdm, wm)"
    and fin: "(if start_program pdm then
            (case micronucleus_start (pdm\<lparr>start_program := False\<rparr>) wm of
               Inl f \<Rightarrow> Inl f
             | Inr (result, w3) \<Rightarrow> Inr (pdm\<lparr>start_program := False\<rparr>, w3))
          else Inr (pdm, wm)) = Inr (pd3, w3)"
    using pw unfolding micronucleus_powerdown_def last_page_address_def
    by (simp split: sum.splits prod.splits)
  have m: "\<not> write_last_page pdm \<and> start_program pdm = start_program pdata
      \<and> usb_handle pdm = usb_handle pdata
      \<and> (\<exists>evs. trace wm = trace w @ evs)
      \<and> (write_last_page pdata \<longrightarrow> (\<exists>evs. trace wm = trace w @
            WritePage (last_page_address pdata) ?blank (ucast (page_size pdata)) # evs))
      \<and> (\<not> write_last_page pdata \<longrightarrow> wm = w)"
  proof (cases "write_last_page pdata")
    case False
    with mid show ?thesis by simp
  next
    case True
    with mid obtain r where
      wp: "micronucleus_write_page ?p0 (last_page_address ?p0) ?blank
             (ucast (page_size pdata)) w = Inr (r, pdm, wm)"
      by (auto split: sum.splits)
    from nz have nz0: "last_page_address ?p0 \<noteq> 0" by simp
    from write_page_last [OF nz0 wp] write_page_trace [OF wp] True
    show ?thesis by auto
  qed
  from m fin have e: "\<not> write_last_page pd3 \<and> \<not> start_program pd3"
    by (auto split: if_splits sum.splits)
  from e show "\<not> write_last_page pd3" "\<not> start_program pd3" by simp_all
  show "\<exists>rest. trace w3 = trace w @
      WritePage (last_page_address pdata) ?blank (ucast (page_size pdata)) # rest"
    if "write_last_page pdata"
  proof -
    from m that obtain evs where
      t: "trace wm = trace w @
            WritePage (last_page_address pdata) ?blank (ucast (page_size pdata)) # evs"
      by blast
    show ?thesis
    proof (cases "start_program pdm")
      case False
      with fin t show ?thesis by simp
    next
      case True
      with fin obtain r where
        "micronucleus_start (pdm\<lparr>start_program := False\<rparr>) wm = Inr (r, w3)"
        by (auto split: sum.splits)
      from start_trace [OF this] t show ?thesis by auto
    qed
  qed
  show "\<exists>patched rv wv.
       micronucleus_patch_user_vector pdata ?blank = Inr patched
       \<and> micronucleus_write_page_v2 ?p0 (last_page_address pdata) patched
           (ucast (page_size pdata))
           (w\<lparr>trace := trace w @
              [WritePage (last_page_address pdata) ?blank (ucast (page_size pdata))]\<rparr>)
          = Inr (rv, wv)"
    if "write_last_page pdata" "major_version pdata \<ge> 2"
  proof -
    from mid that(1) obtain r where
      wp: "micronucleus_write_page ?p0 (last_page_address ?p0) ?blank
             (ucast (page_size pdata)) w = Inr (r, pdm, wm)"
      by (auto split: sum.splits)
    from nz have nz0: "last_page_address ?p0 \<noteq> 0" by simp
    from that(2) have v2: "major_version ?p0 \<ge> 2" by simp
    have pe: "micronucleus_patch_user_vector ?p0 ?blank = micronucleus_patch_user_vector pdata ?blank"
      by (simp add: micronucleus_patch_user_vector_def Let_def)
    from write_page_last_patched [OF nz0 v2 wp] show ?thesis
      by (simp add: pe)
  qed
  show "\<exists>d front. usb_handle pdata = Some d \<and> trace w3 = front @ [Ctrl d start_request]"
    if "start_program pdata"
  proof -
    from m that have "start_program pdm" by simp
    with fin obtain r where
      "micronucleus_start (pdm\<lparr>start_program := False\<rparr>) wm = Inr (r, w3)"
      by (auto split: sum.splits)
    from start_trace [OF this] m show ?thesis by auto
  qed
  show "w3 = w" if "\<not> write_last_page pdata \<and> \<not> start_program pdata"
    using m fin that by simp
qed

theorem C7_lifecycle_witness:
  "(\<exists>pd1 w1. micronucleus_write_page (example_session 1) 0 (replicate 64 0) 64
        (example_world (-5, [])) = Inr (-5, pd1, w1)
      \<and> write_last_page pd1 \<and> start_program pd1)
   \<and> major_version (example_session 2) \<ge> 2
   \<and> micronucleus_patch_reset_vector (example_session 2) (replicate 64 0)
       = Inr (-1, example_session 2, replicate 64 0)
   \<and> micronucleus_write_page (example_session 2) 0 (replicate 64 0) 64 (example_world (0, []))
       = Inr (-1, example_session 2,
            (example_world (0, []))\<lparr>trace :=
               trace (example_world (0, [])) @ [WritePage 0 (replicate 64 0) 64]\<rparr>)
   \<and> last_page_address
        ((example_session 1)\<lparr>write_last_page := True, start_program := True\<rparr>) \<noteq> 0
   \<and> (\<exists>r2 pd2 w2. micronucleus_write_page
          ((example_session 1)\<lparr>write_last_page := True, start_program := True\<rparr>)
          (last_page_address
             ((example_session 1)\<lparr>write_last_page := True, start_program := True\<rparr>))
          (replicate 64 0) 64 (example_world (0, [])) = Inr (r2, pd2, w2)
        \<and> \<not> write_last_page pd2 \<and> start_program pd2)
   \<and> last_page_address small_v2_session \<noteq> 0
   \<and> write_last_page small_v2_session \<and> start_program small_v2_session
   \<and> major_version small_v2_session \<ge> 2
   \<and> (\<exists>pd3 w3. micronucleus_powerdown small_v2_session (example_world (0, [])) = Inr (pd3, w3)
        \<and> \<not> write_last_page pd3 \<and> \<not> start_program pd3
        \<and> (\<exists>rest. trace w3 = trace (example_world (0, [])) @
               WritePage (last_page_address small_v2_session)
                 (replicate (unat (page_size small_v2_session)) 0xFF)
                 (ucast (page_size small_v2_session)) # rest)
        \<and> (\<exists>patched. micronucleus_patch_user_vector small_v2_session
               (replicate (unat (page_size small_v2_session)) 0xFF) = Inr patched)
        \<and> (\<exists>d front. usb_handle small_v2_session = Some d
               \<and> trace w3 = front @ [Ctrl d start_request]))"
proof -
  let ?s = "(example_session 1)\<lparr>write_last_page := True, start_program := True\<rparr>"
  let ?w = "example_world (0, [])"
  from ex_write_first_failed obtain pd1 w1 where
    a: "micronucleus_write_page (example_session 1) 0 (replicate 64 0) 64
          (example_world (-5, [])) = Inr (-5, pd1, w1)"
    by blast
  have v1: "\<not> major_version (example_session 1) \<ge> 2"
    by (simp add: example_session_def example_pdata_def word_le_nat_alt)
  from C7_lifecycle [where pdata = "example_session 1" and buffer = "replicate 64 0"
      and sz = 64 and w = "example_world (-5, [])" and ?r1.0 = "-5" and ?pd1.0 = pd1
      and ?w1.0 = w1, THEN conjunct1] a v1
  have a': "write_last_page pd1 \<and> start_program pd1"
    by simp
  have v2: "major_version (example_session 2) \<ge> 2"
    by (simp add: example_session_def example_pdata_def)
  have nb: "micronucleus_patch_reset_vector (example_session 2) (replicate 64 0)
       = Inr (-1, example_session 2, replicate 64 0)"
    using ex_write_first_no_branch by simp
  from ex_write_first_no_branch obtain r0 pd0 w0 where
    n: "micronucleus_write_page (example_session 2) 0 (replicate 64 0) 64 ?w
          = Inr (r0, pd0, w0)"
    by blast
  from C7_lifecycle [where pdata = "example_session 2" and buffer = "replicate 64 0"
      and sz = 64 and w = ?w and ?r1.0 = r0 and ?pd1.0 = pd0 and ?w1.0 = w0,
      THEN conjunct1] n v2 nb
  have "r0 = -1 \<and> pd0 = example_session 2
      \<and> w0 = ?w\<lparr>trace := trace ?w @ [WritePage 0 (replicate 64 0) 64]\<rparr>"
    by simp
  with n have n': "micronucleus_write_page (example_session 2) 0 (replicate 64 0) 64 ?w
       = Inr (-1, example_session 2,
            ?w\<lparr>trace := trace ?w @ [WritePage 0 (replicate 64 0) 64]\<rparr>)"
    by simp
  have lp: "last_page_address ?s = 4032"
    using ex_write_last by simp
  then have nz: "last_page_address ?s \<noteq> 0"
    by simp
  from ex_write_last lp obtain r2 pd2 w2 where
    b: "micronucleus_write_page ?s (last_page_address ?s) (replicate 64 0) 64 ?w
          = Inr (r2, pd2, w2)"
    by auto
  from C7_lifecycle [where pdata = ?s and buffer = "replicate 64 0"
      and sz = 64 and w = ?w and ?r2.0 = r2 and ?pd2.0 = pd2 and ?w2.0 = w2,
      THEN conjunct2, THEN conjunct1] nz b
  have b': "\<not> write_last_page pd2 \<and> start_program pd2"
    by simp
  have nz3: "last_page_address small_v2_session \<noteq> 0"
    using ex_powerdown_v2 by simp
  have fl: "write_last_page small_v2_session" "start_program small_v2_session"
    "major_version small_v2_session \<ge> 2"
    by (simp_all add: small_v2_session_def example_pdata_def)
  from ex_powerdown_v2 obtain pd3 w3 where
    c: "micronucleus_powerdown small_v2_session ?w = Inr (pd3, w3)"
    by blast
  from C7_lifecycle [where pdata = small_v2_session and w = ?w and ?pd3.0 = pd3
      and ?w3.0 = w3, THEN conjunct2, THEN conjunct2] nz3 c fl
  have c': "\<not> write_last_page pd3 \<and> \<not> start_program pd3
        \<and> (\<exists>rest. trace w3 = trace ?w @
               WritePage (last_page_address small_v2_session)
                 (replicate (unat (page_size small_v2_session)) 0xFF)
                 (ucast (page_size small_v2_session)) # rest)
        \<and> (\<exists>patched. micronucleus_patch_user_vector small_v2_session
               (replicate (unat (page_size small_v2_session)) 0xFF) = Inr patched)
        \<and> (\<exists>d front. usb_handle small_v2_session = Some d
               \<and> trace w3 = front @ [Ctrl d start_request])"
    by blast
  from a a' have first: "\<exists>pd1 w1. micronucleus_write_page (example_session 1) 0
        (replicate 64 0) 64 (example_world (-5, [])) = Inr (-5, pd1, w1)
      \<and> write_last_page pd1 \<and> start_program pd1"
    by blast
  from first v2 nb n' nz b b' nz3 fl c c' show ?thesis
    by blast
qed

subsection \<open>C8: the errors of a chip erase\<close>

text \<open>
  C8: let the session be open on device \<open>d\<close>, let \<open>r\<close> be the result of the erase command
  and \<open>rc\<close> the result of the info request of the connection check that follows it.
  \<^item> A negative \<open>r\<close> other than \<open>-EIO\<close> and \<open>-EPIPE\<close> is fatal: the call returns \<open>r\<close> after
    the erase command, with no sleep and no check.
  \<^item> For \<open>r = -EIO\<close>, \<open>r = -EPIPE\<close> or \<open>r \<ge> 0\<close> the call sleeps for \<open>erase_sleep\<close> and
    checks the connection; when the check succeeds the call returns 0.
  \<^item> When the check fails the call closes the device and reopens the same device, with
    a sleep of \<^verbatim>\<open>MICRONUCLEUS_CONNECT_WAIT\<close> after each failure: it returns 0 at the first
    attempt that succeeds among the first 25, and \<open>-1\<close> after exactly 25 failed attempts.
  The values of \<open>EIO\<close> and \<open>EPIPE\<close> are parameters.
\<close>

theorem C8_chip_erase:
  assumes h: "usb_handle pdata = Some d"
    and e: "usb_reply w (trace w) erase_request = (r, bytes)"
    and c: "usb_reply w (trace w @ [Ctrl d erase_request, Usleep (ucast (erase_sleep pdata) * 1000)])
              (check_request pdata) = (rc, bytes')"
  shows "(r < 0 \<and> r \<noteq> - eio \<and> r \<noteq> - epipe \<longrightarrow>
            micronucleus_chip_erase eio epipe pdata w
              = Inr (r, pdata, w\<lparr>trace := trace w @ [Ctrl d erase_request]\<rparr>))
    \<and> ((0 \<le> r \<or> r = - eio \<or> r = - epipe) \<and> rc = check_size pdata \<longrightarrow>
            micronucleus_chip_erase eio epipe pdata w
              = Inr (0, pdata, w\<lparr>trace := trace w @
                    [Ctrl d erase_request, Usleep (ucast (erase_sleep pdata) * 1000),
                     Ctrl d (check_request pdata)]\<rparr>))
    \<and> ((0 \<le> r \<or> r = - eio \<or> r = - epipe) \<and> rc \<noteq> check_size pdata
         \<and> (\<forall>j < 25. \<not> usb_open_ok w (trace w @
                [Ctrl d erase_request, Usleep (ucast (erase_sleep pdata) * 1000),
                 Ctrl d (check_request pdata), Close d] @ failed_opens d j) d) \<longrightarrow>
            (\<exists>w'. micronucleus_chip_erase eio epipe pdata w
                     = Inr (-1, pdata\<lparr>usb_handle := None\<rparr>, w')
                \<and> trace w' = trace w @
                     [Ctrl d erase_request, Usleep (ucast (erase_sleep pdata) * 1000),
                      Ctrl d (check_request pdata), Close d] @ failed_opens d 25))
    \<and> ((0 \<le> r \<or> r = - eio \<or> r = - epipe) \<and> rc \<noteq> check_size pdata \<and> k < 25
         \<and> (\<forall>j < k. \<not> usb_open_ok w (trace w @
                [Ctrl d erase_request, Usleep (ucast (erase_sleep pdata) * 1000),
                 Ctrl d (check_request pdata), Close d] @ failed_opens d j) d)
         \<and> usb_open_ok w (trace w @
                [Ctrl d erase_request, Usleep (ucast (erase_sleep pdata) * 1000),
                 Ctrl d (check_request pdata), Close d] @ failed_opens d k) d \<longrightarrow>
            (\<exists>w'. micronucleus_chip_erase eio epipe pdata w
                     = Inr (0, pdata\<lparr>usb_handle := Some d\<rparr>, w')
                \<and> trace w' = trace w @
                     [Ctrl d erase_request, Usleep (ucast (erase_sleep pdata) * 1000),
                      Ctrl d (check_request pdata), Close d] @ failed_opens d k @ [Open d True]))"
proof -
  let ?w1 = "w\<lparr>trace := trace w @ [Ctrl d erase_request]\<rparr>"
  let ?w2 = "delay_ms (ucast (erase_sleep pdata)) ?w1"
  let ?w3 = "?w2\<lparr>trace := trace ?w2 @ [Ctrl d (check_request pdata)],
                usb_access_error := (rc < 0 \<or> usb_access_error ?w2)\<rparr>"
  let ?w4 = "?w3\<lparr>trace := trace ?w3 @ [Close d]\<rparr>"
  let ?T = "\<lambda>evs. trace w @ [Ctrl d erase_request, Usleep (ucast (erase_sleep pdata) * 1000),
                 Ctrl d (check_request pdata), Close d] @ evs"
  have er: "usb_control_msg (usb_handle pdata) erase_request w = Inr (r, [], ?w1)"
    using h e by (simp add: usb_control_msg_def erase_request_def)
  have t2: "trace ?w2 = trace w @ [Ctrl d erase_request, Usleep (ucast (erase_sleep pdata) * 1000)]"
    and r2: "usb_reply ?w2 = usb_reply w"
    by (simp_all add: delay_ms_def)
  have ck: "micronucleus_check_connection pdata ?w2
              = Inr (if rc = check_size pdata then 0 else -1, ?w3)"
    by (rule check_connection_result [OF h]) (simp add: t2 r2 c)
  have t4: "trace ?w4 @ evs = ?T evs" and o4: "usb_open_ok ?w4 = usb_open_ok w" for evs
    by (simp_all add: delay_ms_def)
  have rcn: "micronucleus_reconnect pdata ?w3
               = Inr (reconnect_loop 0 d (pdata\<lparr>usb_handle := None\<rparr>) ?w4)"
    by (rule reconnect_result [OF h])
  have fatal: "micronucleus_chip_erase eio epipe pdata w = Inr (r, pdata, ?w1)"
    if "r < 0 \<and> r \<noteq> - eio \<and> r \<noteq> - epipe"
    using that er by (simp add: micronucleus_chip_erase_def micronucleus_erase_device_def)
  have go: "micronucleus_chip_erase eio epipe pdata w =
      (if rc = check_size pdata then Inr (0, pdata, ?w3)
       else (case reconnect_loop 0 d (pdata\<lparr>usb_handle := None\<rparr>) ?w4 of
               (result3, pdata3, w3) \<Rightarrow>
                 if result3 < 0 then Inr (result3, pdata3, w3) else Inr (0, pdata3, w3)))"
    if "0 \<le> r \<or> r = - eio \<or> r = - epipe"
  proof -
    from that have "\<not> (r < 0 \<and> r \<noteq> - eio \<and> r \<noteq> - epipe)" by auto
    then show ?thesis
      unfolding micronucleus_chip_erase_def micronucleus_erase_device_def
      by (simp only: er ck rcn sum.case prod.case if_False) (simp split: prod.splits)
  qed
  have ok: "micronucleus_chip_erase eio epipe pdata w
      = Inr (0, pdata, w\<lparr>trace := trace w @
            [Ctrl d erase_request, Usleep (ucast (erase_sleep pdata) * 1000),
             Ctrl d (check_request pdata)]\<rparr>)"
    if "(0 \<le> r \<or> r = - eio \<or> r = - epipe) \<and> rc = check_size pdata"
  proof -
    from that have "0 \<le> rc" by (simp add: check_size_def)
    with that go show ?thesis by (simp add: delay_ms_def)
  qed
  have exhausted: "\<exists>w'. micronucleus_chip_erase eio epipe pdata w
                     = Inr (-1, pdata\<lparr>usb_handle := None\<rparr>, w')
                \<and> trace w' = ?T (failed_opens d 25)"
    if "(0 \<le> r \<or> r = - eio \<or> r = - epipe) \<and> rc \<noteq> check_size pdata
         \<and> (\<forall>j < 25. \<not> usb_open_ok w (?T (failed_opens d j)) d)"
  proof -
    from that have "\<forall>j < 25 - 0. \<not> usb_open_ok ?w4 (trace ?w4 @ failed_opens d j) d"
      by (simp only: t4 o4) simp
    from reconnect_loop_exhaust [OF _ _ this, of "pdata\<lparr>usb_handle := None\<rparr>"]
    have "reconnect_loop 0 d (pdata\<lparr>usb_handle := None\<rparr>) ?w4
        = (-1, pdata\<lparr>usb_handle := None\<rparr>, ?w4\<lparr>trace := trace ?w4 @ failed_opens d 25\<rparr>)"
      by simp
    with that go show ?thesis by (simp add: delay_ms_def)
  qed
  have reopened: "\<exists>w'. micronucleus_chip_erase eio epipe pdata w
                     = Inr (0, pdata\<lparr>usb_handle := Some d\<rparr>, w')
                \<and> trace w' = ?T (failed_opens d k @ [Open d True])"
    if "(0 \<le> r \<or> r = - eio \<or> r = - epipe) \<and> rc \<noteq> check_size pdata \<and> k < 25
         \<and> (\<forall>j < k. \<not> usb_open_ok w (?T (failed_opens d j)) d)
         \<and> usb_open_ok w (?T (failed_opens d k)) d"
  proof -
    from that have a: "0 + k < 25"
      and b: "\<forall>j < k. \<not> usb_open_ok ?w4 (trace ?w4 @ failed_opens d j) d"
      and c: "usb_open_ok ?w4 (trace ?w4 @ failed_opens d k) d"
      by (simp_all only: t4 o4) simp_all
    from reconnect_loop_success [OF a b c, of "pdata\<lparr>usb_handle := None\<rparr>"]
    have "reconnect_loop 0 d (pdata\<lparr>usb_handle := None\<rparr>) ?w4
        = (0, pdata\<lparr>usb_handle := Some d\<rparr>,
           ?w4\<lparr>trace := trace ?w4 @ failed_opens d k @ [Open d True]\<rparr>)"
      by simp
    with that go show ?thesis by (simp add: delay_ms_def)
  qed
  show ?thesis
  proof (intro conjI impI)
    assume "r < 0 \<and> r \<noteq> - eio \<and> r \<noteq> - epipe"
    then show "micronucleus_chip_erase eio epipe pdata w
              = Inr (r, pdata, w\<lparr>trace := trace w @ [Ctrl d erase_request]\<rparr>)"
      by (rule fatal)
  next
    assume "(0 \<le> r \<or> r = - eio \<or> r = - epipe) \<and> rc = check_size pdata"
    then show "micronucleus_chip_erase eio epipe pdata w
              = Inr (0, pdata, w\<lparr>trace := trace w @
                    [Ctrl d erase_request, Usleep (ucast (erase_sleep pdata) * 1000),
                     Ctrl d (check_request pdata)]\<rparr>)"
      by (rule ok)
  next
    assume "(0 \<le> r \<or> r = - eio \<or> r = - epipe) \<and> rc \<noteq> check_size pdata
         \<and> (\<forall>j < 25. \<not> usb_open_ok w (?T (failed_opens d j)) d)"
    then show "\<exists>w'. micronucleus_chip_erase eio epipe pdata w
                     = Inr (-1, pdata\<lparr>usb_handle := None\<rparr>, w')
                \<and> trace w' = ?T (failed_opens d 25)"
      by (rule exhausted)
  next
    assume "(0 \<le> r \<or> r = - eio \<or> r = - epipe) \<and> rc \<noteq> check_size pdata \<and> k < 25
         \<and> (\<forall>j < k. \<not> usb_open_ok w (?T (failed_opens d j)) d)
         \<and> usb_open_ok w (?T (failed_opens d k)) d"
    then show "\<exists>w'. micronucleus_chip_erase eio epipe pdata w
                     = Inr (0, pdata\<lparr>usb_handle := Some d\<rparr>, w')
                \<and> trace w' = ?T (failed_opens d k @ [Open d True])"
      by (rule reopened)
  qed
qed

theorem C8_chip_erase_witness:
  "usb_handle (example_session 1) = Some example_device
   \<and> check_size (example_session 1) = 4
   \<and> micronucleus_chip_erase 5 32 (example_session 1) (erase_world (-7) 4 0)
       = Inr (-7, example_session 1,
              (erase_world (-7) 4 0)\<lparr>trace := [Ctrl example_device erase_request]\<rparr>)
   \<and> micronucleus_chip_erase 5 32 (example_session 1) (erase_world (-32) 4 0)
       = Inr (0, example_session 1,
              (erase_world (-32) 4 0)\<lparr>trace :=
                 [Ctrl example_device erase_request,
                  Usleep (ucast (erase_sleep (example_session 1)) * 1000),
                  Ctrl example_device (check_request (example_session 1))]\<rparr>)
   \<and> (\<exists>w'. micronucleus_chip_erase 5 32 (example_session 1) (erase_world (-5) (-1) 1000)
          = Inr (-1, (example_session 1)\<lparr>usb_handle := None\<rparr>, w')
        \<and> trace w' =
             [Ctrl example_device erase_request,
              Usleep (ucast (erase_sleep (example_session 1)) * 1000),
              Ctrl example_device (check_request (example_session 1)), Close example_device]
             @ failed_opens example_device 25)
   \<and> (\<exists>w'. micronucleus_chip_erase 5 32 (example_session 1) (erase_world 0 0 8)
          = Inr (0, (example_session 1)\<lparr>usb_handle := Some example_device\<rparr>, w')
        \<and> trace w' =
             [Ctrl example_device erase_request,
              Usleep (ucast (erase_sleep (example_session 1)) * 1000),
              Ctrl example_device (check_request (example_session 1)), Close example_device]
             @ failed_opens example_device 2 @ [Open example_device True])"
proof -
  let ?s = "example_session 1"
  let ?d = example_device
  have h: "usb_handle ?s = Some ?d"
    by (simp add: example_session_def example_pdata_def)
  have cs: "check_size ?s = 4"
    by (simp add: check_size_def example_session_def example_pdata_def word_le_nat_alt)
  have e: "usb_reply (erase_world r rc n) (trace (erase_world r rc n)) erase_request = (r, [])"
    for r rc n by (simp add: erase_world_facts)
  have c: "usb_reply (erase_world r rc n) (trace (erase_world r rc n) @
              [Ctrl ?d erase_request, Usleep (ucast (erase_sleep ?s) * 1000)])
              (check_request ?s) = (rc, [])"
    for r rc n by (simp add: erase_world_facts)
  note inst = C8_chip_erase [where eio = 5 and epipe = 32, OF h e c]
  have a: "micronucleus_chip_erase 5 32 ?s (erase_world (-7) 4 0)
       = Inr (-7, ?s, (erase_world (-7) 4 0)\<lparr>trace := [Ctrl ?d erase_request]\<rparr>)"
    using inst [of "-7" 4 0, THEN conjunct1] by (simp add: erase_world_facts)
  have b: "micronucleus_chip_erase 5 32 ?s (erase_world (-32) 4 0)
       = Inr (0, ?s, (erase_world (-32) 4 0)\<lparr>trace :=
                 [Ctrl ?d erase_request, Usleep (ucast (erase_sleep ?s) * 1000),
                  Ctrl ?d (check_request ?s)]\<rparr>)"
    using inst [of "-32" 4 0, THEN conjunct2, THEN conjunct1] cs
    by (simp add: erase_world_facts)
  have x: "\<exists>w'. micronucleus_chip_erase 5 32 ?s (erase_world (-5) (-1) 1000)
          = Inr (-1, ?s\<lparr>usb_handle := None\<rparr>, w')
        \<and> trace w' =
             [Ctrl ?d erase_request, Usleep (ucast (erase_sleep ?s) * 1000),
              Ctrl ?d (check_request ?s), Close ?d] @ failed_opens ?d 25"
    using inst [of "-5" "-1" 1000, THEN conjunct2, THEN conjunct2, THEN conjunct1] cs
    by (simp add: erase_world_facts)
  have y: "\<exists>w'. micronucleus_chip_erase 5 32 ?s (erase_world 0 0 8)
          = Inr (0, ?s\<lparr>usb_handle := Some ?d\<rparr>, w')
        \<and> trace w' =
             [Ctrl ?d erase_request, Usleep (ucast (erase_sleep ?s) * 1000),
              Ctrl ?d (check_request ?s), Close ?d] @ failed_opens ?d 2 @ [Open ?d True]"
    using inst [of 0 0 8, where k = 2, THEN conjunct2, THEN conjunct2, THEN conjunct2] cs
    by (simp add: erase_world_facts less_Suc_eq eval_nat_numeral)
  from h cs a b x y show ?thesis by simp
qed

subsection \<open>C9: the locator filter of discovery\<close>

text \<open>
  C9, as the spec states it, has the rejected device not opened. The scan establishes that
  a device is responsive before it looks at the locator, and it does so on a connection of
  its own: in scenario C the device \<open>005\<close> is opened, asked for its info block and closed
  before the device \<open>004\<close> is probed and then opened for the session.
\<close>

theorem C9_probe_counterexample:
  "open_outcome (micronucleus_open 0 [] (example_pdata 1) ''usb:001:004'' discovery_world)
     = Some (0, Some example_device,
         [Open device_005 True, Ctrl device_005 (info_request 4), Close device_005,
          Open example_device True, Ctrl example_device (info_request 4), Close example_device,
          Open example_device True])"
  by (rule ex_open_trace)

text \<open>
  C9 (amended): the locator \<^verbatim>\<open>usb:001:004\<close> parses to the bus name \<open>001\<close> and the device
  name \<open>004\<close>. Under a locator with bus name \<open>bn\<close> and device name \<open>dn\<close>, a device with the
  vendor and product id searched for that opens, answers the info request in full (it is
  responsive) and has a supported version, but sits on a bus of another name or has another
  file name, is rejected: all the scan does to it is the probe (open, info request, close),
  no handle is retained, and the scan goes on from the position behind it, over the
  remaining devices of its bus and then over the busses after it. When the devices of a bus
  are exhausted the scan stands before the devices of the next bus, and the scan of a list
  of busses starts before the devices of the first. \<^verbatim>\<open>micronucleus_open\<close> under such a
  locator returns what the scan of the enumerated busses leaves (code 0 with a handle, -1
  without) once a handle is held or the session does not wait for a device. Whatever
  device \<^verbatim>\<open>micronucleus_open\<close> retains under such a locator has the file name \<open>dn\<close> and was
  enumerated on a bus named \<open>bn\<close>.
\<close>

theorem C9_locator_filter:
  "parse_port ''usb:001:004'' = (Some ''usb:001:004'', Some ''001'', Some ''004'')
   \<and> (usb_handle pdata = None
       \<and> uint (idVendor device) = vid \<and> uint (idProduct device) = pid
       \<and> usb_open_ok w (trace w) device
       \<and> usb_reply w (trace w @ [Open device True]) (check_request (probed pdata device))
           = (check_size (probed pdata device), bytes)
       \<and> major_version (probed pdata device) \<le> MICRONUCLEUS_MAX_MAJOR_VERSION
       \<and> (dirname bus \<noteq> bn \<or> filename device \<noteq> dn)
       \<longrightarrow> scan_rest (Some p) (Some bn) (Some dn) vid pid bus (device # devs) busses pdata w
           = scan_rest (Some p) (Some bn) (Some dn) vid pid bus devs busses
               ((probed pdata device)\<lparr>usb_handle := None\<rparr>)
               (w\<lparr>trace := trace w @ [Open device True,
                    Ctrl device (check_request (probed pdata device)), Close device]\<rparr>))
   \<and> scan_rest port1 bn1 dn1 vid1 pid1 bus1 [] (bus2 # busses1) pdata1 w1
       = scan_rest port1 bn1 dn1 vid1 pid1 bus2 (devices bus2) busses1 pdata1 w1
   \<and> scan_busses port1 bn1 dn1 vid1 pid1 (bus2 # busses1) pdata1 w1
       = scan_rest port1 bn1 dn1 vid1 pid1 bus2 (devices bus2) busses1 pdata1 w1
   \<and> (parse_port port2 = (Some p2, Some bn2, Some dn2)
       \<and> scan_busses (Some p2) (Some bn2) (Some dn2)
           (if usbvid2 \<noteq> 0 then usbvid2 else MICRONUCLEUS_VID)
           (case usbpid2 of [] \<Rightarrow> MICRONUCLEUS_PID | q # qs \<Rightarrow> q)
           (usb_busses w2 (trace w2)) (pdata2\<lparr>usb_handle := None\<rparr>) w2 = Inr (pd2, w2')
       \<and> (usb_handle pd2 \<noteq> None \<or> \<not> wait_until_device_present pd2)
       \<longrightarrow> micronucleus_open usbvid2 usbpid2 pdata2 port2 w2
           = Some (Inr (if usb_handle pd2 = None then -1 else 0, pd2, w2')))
   \<and> (micronucleus_open usbvid usbpid pdata0 port w0 = Some (Inr (r, pd', w'))
       \<and> parse_port port = (Some p', Some bn', Some dn') \<and> usb_handle pd' = Some dev
       \<longrightarrow> filename dev = dn'
           \<and> (\<exists>h. \<exists>bus \<in> set (usb_busses w0 h). dirname bus = bn' \<and> dev \<in> set (devices bus)))"
proof (intro conjI impI)
  show "parse_port ''usb:001:004'' = (Some ''usb:001:004'', Some ''001'', Some ''004'')"
    by (rule parse_port_example)
next
  assume a: "usb_handle pdata = None
       \<and> uint (idVendor device) = vid \<and> uint (idProduct device) = pid
       \<and> usb_open_ok w (trace w) device
       \<and> usb_reply w (trace w @ [Open device True]) (check_request (probed pdata device))
           = (check_size (probed pdata device), bytes)
       \<and> major_version (probed pdata device) \<le> MICRONUCLEUS_MAX_MAJOR_VERSION
       \<and> (dirname bus \<noteq> bn \<or> filename device \<noteq> dn)"
  have "scan_devices (Some p) (Some bn) (Some dn) vid pid bus (device # devs) pdata w
           = scan_devices (Some p) (Some bn) (Some dn) vid pid bus devs
               ((probed pdata device)\<lparr>usb_handle := None\<rparr>)
               (w\<lparr>trace := trace w @ [Open device True,
                    Ctrl device (check_request (probed pdata device)), Close device]\<rparr>)"
    by (rule scan_devices_reject) (use a in simp_all)
  then show "scan_rest (Some p) (Some bn) (Some dn) vid pid bus (device # devs) busses pdata w
           = scan_rest (Some p) (Some bn) (Some dn) vid pid bus devs busses
               ((probed pdata device)\<lparr>usb_handle := None\<rparr>)
               (w\<lparr>trace := trace w @ [Open device True,
                    Ctrl device (check_request (probed pdata device)), Close device]\<rparr>)"
    by (simp only: scan_rest_def)
next
  show "scan_rest port1 bn1 dn1 vid1 pid1 bus1 [] (bus2 # busses1) pdata1 w1
       = scan_rest port1 bn1 dn1 vid1 pid1 bus2 (devices bus2) busses1 pdata1 w1"
    by (simp only: scan_rest_next scan_busses_rest)
next
  show "scan_busses port1 bn1 dn1 vid1 pid1 (bus2 # busses1) pdata1 w1
       = scan_rest port1 bn1 dn1 vid1 pid1 bus2 (devices bus2) busses1 pdata1 w1"
    by (rule scan_busses_rest)
next
  assume c: "parse_port port2 = (Some p2, Some bn2, Some dn2)
       \<and> scan_busses (Some p2) (Some bn2) (Some dn2)
           (if usbvid2 \<noteq> 0 then usbvid2 else MICRONUCLEUS_VID)
           (case usbpid2 of [] \<Rightarrow> MICRONUCLEUS_PID | q # qs \<Rightarrow> q)
           (usb_busses w2 (trace w2)) (pdata2\<lparr>usb_handle := None\<rparr>) w2 = Inr (pd2, w2')
       \<and> (usb_handle pd2 \<noteq> None \<or> \<not> wait_until_device_present pd2)"
  show "micronucleus_open usbvid2 usbpid2 pdata2 port2 w2
           = Some (Inr (if usb_handle pd2 = None then -1 else 0, pd2, w2'))"
    by (rule open_from_scan [of port2 p2 bn2 dn2]) (use c in simp_all)
next
  assume b: "micronucleus_open usbvid usbpid pdata0 port w0 = Some (Inr (r, pd', w'))
       \<and> parse_port port = (Some p', Some bn', Some dn') \<and> usb_handle pd' = Some dev"
  have "filename dev = dn'
           \<and> (\<exists>h. \<exists>bus \<in> set (usb_busses w0 h). dirname bus = bn' \<and> dev \<in> set (devices bus))"
    by (rule open_retained [of usbvid usbpid pdata0 port w0 r pd' w' p' bn' dn' dev])
      (use b in simp_all)
  then show "filename dev = dn'"
    and "\<exists>h. \<exists>bus \<in> set (usb_busses w0 h). dirname bus = bn' \<and> dev \<in> set (devices bus)"
    by simp_all
qed


theorem C9_locator_filter_witness:
  "usb_handle ((example_pdata 1)\<lparr>usb_handle := None\<rparr>) = None
   \<and> uint (idVendor device_005) = MICRONUCLEUS_VID
   \<and> uint (idProduct device_005) = MICRONUCLEUS_PID
   \<and> usb_open_ok split_world (trace split_world) device_005
   \<and> usb_reply split_world (trace split_world @ [Open device_005 True])
        (check_request (probed ((example_pdata 1)\<lparr>usb_handle := None\<rparr>) device_005))
       = (check_size (probed ((example_pdata 1)\<lparr>usb_handle := None\<rparr>) device_005),
          [0x10, 0x00, 0x40, 0x02])
   \<and> major_version (probed ((example_pdata 1)\<lparr>usb_handle := None\<rparr>) device_005)
        \<le> MICRONUCLEUS_MAX_MAJOR_VERSION
   \<and> filename device_005 \<noteq> ''004''
   \<and> scan_busses (Some ''usb:001:004'') (Some ''001'') (Some ''004'')
        MICRONUCLEUS_VID MICRONUCLEUS_PID
        [\<lparr>dirname = ''001'', devices = [device_005]\<rparr>,
         \<lparr>dirname = ''002'', devices = [example_device]\<rparr>]
        ((example_pdata 1)\<lparr>usb_handle := None\<rparr>) split_world
      = scan_rest (Some ''usb:001:004'') (Some ''001'') (Some ''004'')
        MICRONUCLEUS_VID MICRONUCLEUS_PID
        \<lparr>dirname = ''002'', devices = [example_device]\<rparr> [example_device] []
        ((probed ((example_pdata 1)\<lparr>usb_handle := None\<rparr>) device_005)\<lparr>usb_handle := None\<rparr>)
        (split_world\<lparr>trace := trace split_world @ [Open device_005 True,
            Ctrl device_005
              (check_request (probed ((example_pdata 1)\<lparr>usb_handle := None\<rparr>) device_005)),
            Close device_005]\<rparr>)
   \<and> open_outcome (micronucleus_open 0 [] (example_pdata 1) ''usb:001:004'' split_world)
      = Some (-1, None,
         [Open device_005 True, Ctrl device_005 (info_request 4), Close device_005,
          Open example_device True, Ctrl example_device (info_request 4), Close example_device])
   \<and> open_outcome (micronucleus_open 0 [] (example_pdata 1) ''usb:002:004'' split_world)
      = Some (0, Some example_device,
         [Open device_005 True, Ctrl device_005 (info_request 4), Close device_005,
          Open example_device True, Ctrl example_device (info_request 4), Close example_device,
          Open example_device True])
   \<and> (\<exists>pd' w'. micronucleus_open 0 [] (example_pdata 1) ''usb:001:004'' discovery_world
          = Some (Inr (0, pd', w'))
        \<and> usb_handle pd' = Some example_device
        \<and> filename example_device = ''004''
        \<and> (\<exists>h. \<exists>bus \<in> set (usb_busses discovery_world h).
               dirname bus = ''001'' \<and> example_device \<in> set (devices bus)))"
proof -
  let ?p = "(example_pdata 1)\<lparr>usb_handle := None\<rparr>"
  let ?b1 = "\<lparr>dirname = ''001'', devices = [device_005]\<rparr>"
  let ?b2 = "\<lparr>dirname = ''002'', devices = [example_device]\<rparr>"
  let ?p5 = "(probed ?p device_005)\<lparr>usb_handle := None\<rparr>"
  let ?w5 = "split_world\<lparr>trace := trace split_world @ [Open device_005 True,
            Ctrl device_005 (check_request (probed ?p device_005)), Close device_005]\<rparr>"
  have h: "usb_handle ?p = None" by simp
  have v: "uint (idVendor device_005) = MICRONUCLEUS_VID"
    "uint (idProduct device_005) = MICRONUCLEUS_PID"
    by (simp_all add: device_005_def example_device_def MICRONUCLEUS_VID_def
        MICRONUCLEUS_PID_def)
  have ok: "usb_open_ok split_world (trace split_world) device_005"
    by (simp add: split_world_def discovery_world_def)
  have cs: "check_size (probed ?p device_005) = 4"
    by (simp add: check_size_def probed_def device_005_def example_device_def
        word_le_nat_alt drop_bit_eq_div)
  have rp: "usb_reply split_world (trace split_world @ [Open device_005 True])
        (check_request (probed ?p device_005))
       = (check_size (probed ?p device_005), [0x10, 0x00, 0x40, 0x02])"
    by (simp add: cs) (simp add: split_world_def discovery_world_def)
  have mv: "major_version (probed ?p device_005) \<le> MICRONUCLEUS_MAX_MAJOR_VERSION"
    by (simp add: probed_def device_005_def example_device_def
        MICRONUCLEUS_MAX_MAJOR_VERSION_def word_le_nat_alt drop_bit_eq_div)
  have fn: "filename device_005 \<noteq> ''004''"
    by (simp add: device_005_def)
  from C9_locator_filter [where ?port1.0 = "Some ''usb:001:004''" and ?bn1.0 = "Some ''001''"
      and ?dn1.0 = "Some ''004''" and ?vid1.0 = MICRONUCLEUS_VID
      and ?pid1.0 = MICRONUCLEUS_PID and ?bus2.0 = ?b1 and ?busses1.0 = "[?b2]"
      and ?pdata1.0 = ?p and ?w1.0 = split_world,
      THEN conjunct2, THEN conjunct2, THEN conjunct2, THEN conjunct1]
  have s1: "scan_busses (Some ''usb:001:004'') (Some ''001'') (Some ''004'')
        MICRONUCLEUS_VID MICRONUCLEUS_PID [?b1, ?b2] ?p split_world
      = scan_rest (Some ''usb:001:004'') (Some ''001'') (Some ''004'')
        MICRONUCLEUS_VID MICRONUCLEUS_PID ?b1 [device_005] [?b2] ?p split_world"
    by simp
  from C9_locator_filter [where pdata = ?p and device = device_005 and w = split_world
      and vid = MICRONUCLEUS_VID and pid = MICRONUCLEUS_PID and bus = ?b1
      and bytes = "[0x10, 0x00, 0x40, 0x02]" and bn = "''001''" and dn = "''004''"
      and p = "''usb:001:004''" and devs = "[]" and busses = "[?b2]",
      THEN conjunct2, THEN conjunct1] h v ok rp mv fn
  have s2: "scan_rest (Some ''usb:001:004'') (Some ''001'') (Some ''004'')
        MICRONUCLEUS_VID MICRONUCLEUS_PID ?b1 [device_005] [?b2] ?p split_world
      = scan_rest (Some ''usb:001:004'') (Some ''001'') (Some ''004'')
        MICRONUCLEUS_VID MICRONUCLEUS_PID ?b1 [] [?b2] ?p5 ?w5"
    by blast
  from C9_locator_filter [where ?port1.0 = "Some ''usb:001:004''" and ?bn1.0 = "Some ''001''"
      and ?dn1.0 = "Some ''004''" and ?vid1.0 = MICRONUCLEUS_VID
      and ?pid1.0 = MICRONUCLEUS_PID and ?bus1.0 = ?b1 and ?bus2.0 = ?b2 and ?busses1.0 = "[]"
      and ?pdata1.0 = ?p5 and ?w1.0 = ?w5,
      THEN conjunct2, THEN conjunct2, THEN conjunct1]
  have s3: "scan_rest (Some ''usb:001:004'') (Some ''001'') (Some ''004'')
        MICRONUCLEUS_VID MICRONUCLEUS_PID ?b1 [] [?b2] ?p5 ?w5
      = scan_rest (Some ''usb:001:004'') (Some ''001'') (Some ''004'')
        MICRONUCLEUS_VID MICRONUCLEUS_PID ?b2 [example_device] [] ?p5 ?w5"
    by simp
  have chain: "scan_busses (Some ''usb:001:004'') (Some ''001'') (Some ''004'')
        MICRONUCLEUS_VID MICRONUCLEUS_PID [?b1, ?b2] ?p split_world
      = scan_rest (Some ''usb:001:004'') (Some ''001'') (Some ''004'')
        MICRONUCLEUS_VID MICRONUCLEUS_PID ?b2 [example_device] [] ?p5 ?w5"
    by (simp only: s1 s2 s3)
  from ex_discovery obtain pd' w' where
    o: "micronucleus_open 0 [] (example_pdata 1) ''usb:001:004'' discovery_world
          = Some (Inr (0, pd', w'))"
    and hd: "usb_handle pd' = Some example_device"
    by force
  from C9_locator_filter [where usbvid = 0 and usbpid = "[]" and ?pdata0.0 = "example_pdata 1"
      and port = "''usb:001:004''" and ?w0.0 = discovery_world and r = 0 and pd' = pd'
      and w' = w' and p' = "''usb:001:004''" and bn' = "''001''" and dn' = "''004''"
      and dev = example_device, THEN conjunct2, THEN conjunct2, THEN conjunct2,
      THEN conjunct2, THEN conjunct2]
    parse_port_example o hd
  have fin: "filename example_device = ''004''
        \<and> (\<exists>h. \<exists>bus \<in> set (usb_busses discovery_world h).
               dirname bus = ''001'' \<and> example_device \<in> set (devices bus))"
    by blast
  have ret: "\<exists>pd' w'. micronucleus_open 0 [] (example_pdata 1) ''usb:001:004'' discovery_world
          = Some (Inr (0, pd', w'))
        \<and> usb_handle pd' = Some example_device
        \<and> filename example_device = ''004''
        \<and> (\<exists>h. \<exists>bus \<in> set (usb_busses discovery_world h).
               dirname bus = ''001'' \<and> example_device \<in> set (devices bus))"
    using o hd fin by blast
  show ?thesis
    by (intro conjI) (rule h v ok rp mv fn chain ex_split_none ex_split_later_bus ret)+
qed

subsection \<open>C5: the chunks of a paged write\<close>

text \<open>
  C5, as the spec states it, has every paged write that passes the bounds checks hand
  \<open>ceil(S/P)\<close> chunks to the page-write routine. The loop of \<^verbatim>\<open>micronucleus_paged_write\<close>
  stops at the first page write that fails: with a transport that refuses the first
  transfer, a write of 128 bytes in pages of 64 hands over one chunk, not two.
\<close>

theorem C5_failed_write_counterexample:
  "written_pages (micronucleus_paged_write (example_session 1) example_mem 128 0 128
      (example_world (-1, []))) = [(0, replicate 64 0, 64)]
   \<and> length (spec_chunks (mem_buf example_mem) 0 128 64) = 2"
proof -
  have "micronucleus_paged_write (example_session 1) example_mem 128 0 128
      (example_world (-1, []))
    = Some (Inr (-1, (example_session 1)\<lparr>write_last_page := True, start_program := True\<rparr>,
        (example_world (-1, []))\<lparr>trace :=
           [WritePage 0 (replicate 64 0) 64,
            Ctrl example_device \<lparr>rq_dir = USB_ENDPOINT_OUT, rq_cmd = MICRONUCLEUS_CMD_TRANSFER,
               rq_wvalue = 64, rq_windex = 0, rq_bytes = replicate 64 0, rq_size = 64\<rparr>]\<rparr>))"
    apply (simp add: micronucleus_paged_write_def example_session_def example_pdata_def)
    apply (subst paged_write_loop.simps)
    apply (simp add: micronucleus_write_page_def write_page_prepare_def
        micronucleus_write_page_v1_def usb_control_msg_def example_mem_def example_world_def
        Let_def delay_ms_def word_le_nat_alt word_less_nat_alt)
    done
  then show ?thesis
    by (simp add: written_pages_def spec_chunks_shape)
qed

text \<open>
  C5 (amended): a flash paged write of \<open>S\<close> bytes at \<open>addr\<close> that passes the bounds checks
  (\<open>S\<close> at most the caller's page size, \<open>addr + S\<close> at most the flash size), with a device
  page size \<open>P\<close> other than 0, returns; and when it returns 0 (every page write succeeded)
  the calls of the page-write routine it made are exactly the \<open>ceil(S/P)\<close> chunks of the
  spec, in order: chunk \<open>k\<close> goes to address \<open>addr + k * P\<close>, has exactly \<open>P\<close> bytes (the
  bytes of the image that are left, the last chunk padded with \<open>0xFF\<close>) and is passed with
  size \<open>P\<close>, so that \<open>ceil(S/P) * P\<close> bytes are handed over in all.
\<close>

theorem C5_chunking:
  assumes "mem_is_flash mem" and "page_size pdata \<noteq> 0"
    and "unat n_bytes \<le> unat page_size_arg"
    and "unat addr + unat n_bytes \<le> unat (flash_size pdata)"
  shows "(\<exists>y. micronucleus_paged_write pdata mem page_size_arg addr n_bytes w = Some y)
    \<and> (micronucleus_paged_write pdata mem page_size_arg addr n_bytes w = Some (Inr (0, pd', w'))
        \<longrightarrow> page_writes (trace w') = page_writes (trace w) @
              spec_chunks (mem_buf mem) (unat addr) (unat n_bytes) (unat (page_size pdata)))
    \<and> length (spec_chunks (mem_buf mem) (unat addr) (unat n_bytes) (unat (page_size pdata)))
        = (unat n_bytes + unat (page_size pdata) - 1) div unat (page_size pdata)
    \<and> (\<forall>c \<in> set (spec_chunks (mem_buf mem) (unat addr) (unat n_bytes)
                     (unat (page_size pdata))).
          length (fst (snd c)) = unat (page_size pdata) \<and> snd (snd c) = unat (page_size pdata))
    \<and> sum_list (map (\<lambda>c. length (fst (snd c)))
          (spec_chunks (mem_buf mem) (unat addr) (unat n_bytes) (unat (page_size pdata))))
        = ((unat n_bytes + unat (page_size pdata) - 1) div unat (page_size pdata))
            * unat (page_size pdata)"
proof -
  have fs: "unat (flash_size pdata) < 2 ^ 16"
    using unsigned_less [of "flash_size pdata"] by simp
  with assms(4) have nowrap: "unat addr + unat n_bytes < 2 ^ 32"
    by simp
  then have sum: "unat (addr + n_bytes) = unat addr + unat n_bytes"
    by (simp add: unat_add_lem [THEN iffD1])
  have c1: "\<not> n_bytes > page_size_arg"
    using assms(3) by (simp add: word_less_nat_alt)
  have c2: "\<not> addr + n_bytes > ucast (flash_size pdata)"
    using assms(4) sum by (simp add: word_less_nat_alt unat_ucast_16_32)
  have eq: "micronucleus_paged_write pdata mem page_size_arg addr n_bytes w
      = paged_write_loop mem addr n_bytes 0 pdata w"
    using assms(1) c1 c2 by (simp add: micronucleus_paged_write_def)
  have "\<exists>y. micronucleus_paged_write pdata mem page_size_arg addr n_bytes w = Some y"
    unfolding eq by (rule paged_write_loop_returns [OF assms(2)])
  moreover have "page_writes (trace w') = page_writes (trace w) @
              spec_chunks (mem_buf mem) (unat addr) (unat n_bytes) (unat (page_size pdata))"
    if "micronucleus_paged_write pdata mem page_size_arg addr n_bytes w
          = Some (Inr (0, pd', w'))"
    using that unfolding eq by (rule paged_write_loop_chunks [OF assms(2) nowrap])
  ultimately show ?thesis
    using spec_chunks_shape [of "mem_buf mem" "unat addr" "unat n_bytes"
        "unat (page_size pdata)"]
    by blast
qed

theorem C5_chunking_witness:
  "mem_is_flash example_mem \<and> page_size (example_session 1) \<noteq> 0
   \<and> unat (100 :: u32) \<le> unat (128 :: u32)
   \<and> unat (64 :: u32) + unat (100 :: u32) \<le> unat (flash_size (example_session 1))
   \<and> (\<exists>pd' w'. micronucleus_paged_write (example_session 1) example_mem 128 64 100
          (example_world (0, [])) = Some (Inr (0, pd', w'))
        \<and> page_writes (trace w') = page_writes (trace (example_world (0, []))) @
             spec_chunks (mem_buf example_mem) 64 100 64)
   \<and> length (spec_chunks (mem_buf example_mem) 64 100 64) = 2"
proof -
  have a: "mem_is_flash example_mem" by (simp add: example_mem_def)
  have b: "page_size (example_session 1) \<noteq> 0"
    by (simp add: example_session_def example_pdata_def)
  have c: "unat (100 :: u32) \<le> unat (128 :: u32)" by simp
  have d: "unat (64 :: u32) + unat (100 :: u32) \<le> unat (flash_size (example_session 1))"
    by (simp add: example_session_def example_pdata_def)
  have p: "unat (page_size (example_session 1)) = 64"
    by (simp add: example_session_def example_pdata_def)
  from ex_paged_write_two obtain pd' w' where
    e: "micronucleus_paged_write (example_session 1) example_mem 128 64 100
          (example_world (0, [])) = Some (Inr (0, pd', w'))"
    by blast
  note inst = C5_chunking [OF a b c d, of "example_world (0, [])" pd' w']
  from inst [THEN conjunct2, THEN conjunct1] e p
  have f: "page_writes (trace w') = page_writes (trace (example_world (0, []))) @
             spec_chunks (mem_buf example_mem) 64 100 64"
    by simp
  from inst [THEN conjunct2, THEN conjunct2, THEN conjunct1] p
  have g: "length (spec_chunks (mem_buf example_mem) 64 100 64) = 2"
    by simp
  from a b c d e f g show ?thesis by blast
qed

subsection \<open>C1: the round trip of the reset vector\<close>




end
